theory Spec2Isabelle
  imports Main "HOL-Library.Word" "HOL-Library.AList"
begin

section \<open>Addresses, content identifiers and actor records\<close>

text \<open>
  The state tree of \<^verbatim>\<open>package state\<close> maps addresses to actor records. Addresses
  come from the external address package: a value carries a protocol tag, the tag
  \<^verbatim>\<open>address.ID\<close> marks the canonical numeric form, and \<^verbatim>\<open>address.Undef\<close> is the
  zero value, whose protocol is \<^verbatim>\<open>Unknown\<close>. The byte form \<^verbatim>\<open>string(addr.Bytes())\<close>
  that the source uses as trie key is one-to-one with the address, so the tries of the
  model are keyed by the address itself.
\<close>

datatype protocol_tag = ID | SECP256K1 | ActorProtocol | BLS | Unknown

datatype address =
    Undef
  | IDAddress "64 word"
  | SECP256K1Address string
  | ActorAddress string
  | BLSAddress string

fun Protocol :: "address \<Rightarrow> protocol_tag" where
  "Protocol Undef = Unknown"
| "Protocol (IDAddress n) = ID"
| "Protocol (SECP256K1Address s) = SECP256K1"
| "Protocol (ActorAddress s) = ActorProtocol"
| "Protocol (BLSAddress s) = BLS"

text \<open>
  Modelled from the spec: \<^verbatim>\<open>actors.InitAddress\<close> is declared in package \<^verbatim>\<open>actors\<close>, outside the code modelled here;
  the spec says the init actor lives at a well-known address that is always canonical.
\<close>

definition InitAddress :: address where
  "InitAddress = IDAddress 0"

text \<open>
  A \<^verbatim>\<open>cid.Cid\<close> is either the zero value \<^verbatim>\<open>cid.Undef\<close> or the reference of a block. The
  store below hands out \<open>Cid n\<close> for the \<open>n\<close>-th distinct block content it has seen.
\<close>

datatype cid = cid_Undef | Cid nat

text \<open>\<^verbatim>\<open>types.Actor\<close>: code identity, state root, nonce (uint64) and balance (big integer).\<close>

record Actor =
  Code :: cid
  Head :: cid
  Nonce :: "64 word"
  Balance :: int

section \<open>Errors\<close>

text \<open>
  Go errors as values. \<open>Wrap msg e\<close> is \<^verbatim>\<open>xerrors.Errorf("msg: %w", e)\<close>, \<open>Errorf msg\<close> an
  error made by \<^verbatim>\<open>fmt.Errorf\<close> without a wrapped cause. The sentinels are
  \<^verbatim>\<open>hamt.ErrNotFound\<close> (key absent from a trie), \<^verbatim>\<open>types.ErrActorNotFound\<close>, the block
  store's own not-found error and a storage failure.
\<close>

datatype error =
    hamt_ErrNotFound
  | ErrActorNotFound
  | ErrBlockNotFound
  | ErrStorage
  | Errorf string
  | Wrap string error

text \<open>\<^verbatim>\<open>xerrors.Is\<close>: the error or one of the errors it wraps equals the target.\<close>

fun xerrors_Is :: "error \<Rightarrow> error \<Rightarrow> bool" where
  "xerrors_Is (Wrap msg e) target = (Wrap msg e = target \<or> xerrors_Is e target)"
| "xerrors_Is e target = (e = target)"

section \<open>The collaborators: trie, block store, LRU cache, init actor state\<close>

text \<open>
  Modelled from the spec: the HAMT (\<^verbatim>\<open>hamt.Node\<close>) and its block store
  (\<^verbatim>\<open>hamt.CborIpldStore\<close>) are libraries outside the repository. Section 6 of the spec
  gives their contract: \<open>set\<close>/\<open>find\<close> by key, \<open>flush\<close>, \<open>load\<close> by root reference, and a
  store whose \<open>put\<close> returns a content-derived reference. A trie is its key/value content,
  one entry per key; a Go node reaches its store through the pointer it was made with, and
  the operations of the model take that store as an argument. The store is an append-only list of blocks; the reference of a
  block is its position, and putting a content that is already there returns the
  reference it already has. Every operation of the storage layer can fail: \<open>faults\<close> is
  the set of operations the storage layer refuses at present, which is how the model
  reaches each error branch of the source.
\<close>

type_synonym 'v hamt_Node = "(address \<times> 'v) list"

record InitActorState =
  AddressMap :: cid
  NextID :: "64 word"

datatype block =
    ActorTrie "Actor hamt_Node"
  | IdTable "(64 word) hamt_Node"
  | InitStateBlock InitActorState

datatype store_op =
    OpLoadNode cid
  | OpFind address
  | OpSet address
  | OpFlush
  | OpGet cid
  | OpPut

record CborIpldStore =
  blocks :: "block list"
  faults :: "store_op set"

primrec block_index :: "block list \<Rightarrow> block \<Rightarrow> nat option" where
  "block_index [] b = None"
| "block_index (x # xs) b = (if x = b then Some 0 else map_option Suc (block_index xs b))"

definition store_Get :: "CborIpldStore \<Rightarrow> cid \<Rightarrow> error + block" where
  "store_Get cst c =
     (if OpGet c \<in> faults cst then Inl ErrStorage
      else case c of
        cid_Undef \<Rightarrow> Inl ErrBlockNotFound
      | Cid i \<Rightarrow> if i < length (blocks cst) then Inr (blocks cst ! i) else Inl ErrBlockNotFound)"

definition store_Put :: "CborIpldStore \<Rightarrow> block \<Rightarrow> (error + cid) \<times> CborIpldStore" where
  "store_Put cst b =
     (if OpPut \<in> faults cst then (Inl ErrStorage, cst)
      else case block_index (blocks cst) b of
        Some i \<Rightarrow> (Inr (Cid i), cst)
      | None \<Rightarrow> (Inr (Cid (length (blocks cst))), cst\<lparr>blocks := blocks cst @ [b]\<rparr>))"

definition hamt_NewNode :: "'v hamt_Node" where
  "hamt_NewNode = []"

definition hamt_Find :: "CborIpldStore \<Rightarrow> 'v hamt_Node \<Rightarrow> address \<Rightarrow> error + 'v" where
  "hamt_Find cst n k =
     (if OpFind k \<in> faults cst then Inl ErrStorage
      else case map_of n k of None \<Rightarrow> Inl hamt_ErrNotFound | Some v \<Rightarrow> Inr v)"

definition hamt_Set :: "CborIpldStore \<Rightarrow> 'v hamt_Node \<Rightarrow> address \<Rightarrow> 'v \<Rightarrow> error option \<times> 'v hamt_Node" where
  "hamt_Set cst n k v =
     (if OpSet k \<in> faults cst then (Some ErrStorage, n) else (None, AList.update k v n))"

definition hamt_Flush :: "CborIpldStore \<Rightarrow> 'v hamt_Node \<Rightarrow> error option" where
  "hamt_Flush cst n = (if OpFlush \<in> faults cst then Some ErrStorage else None)"

text \<open>\<^verbatim>\<open>hamt.LoadNode\<close> of a state root: the block must be there and decode as a trie of actors.\<close>

definition hamt_LoadNode :: "CborIpldStore \<Rightarrow> cid \<Rightarrow> error + Actor hamt_Node" where
  "hamt_LoadNode cst c =
     (if OpLoadNode c \<in> faults cst then Inl ErrStorage
      else case store_Get cst c of
        Inl err \<Rightarrow> Inl err
      | Inr (ActorTrie n) \<Rightarrow> Inr n
      | Inr _ \<Rightarrow> Inl (Errorf ''decode''))"

text \<open>The same for the address table of the init actor.\<close>

definition hamt_LoadTable :: "CborIpldStore \<Rightarrow> cid \<Rightarrow> error + (64 word) hamt_Node" where
  "hamt_LoadTable cst c =
     (if OpLoadNode c \<in> faults cst then Inl ErrStorage
      else case store_Get cst c of
        Inl err \<Rightarrow> Inl err
      | Inr (IdTable n) \<Rightarrow> Inr n
      | Inr _ \<Rightarrow> Inl (Errorf ''decode''))"

text \<open>\<^verbatim>\<open>st.Store.Get(ctx, act.Head, &ias)\<close>: fetch a block and decode it as init actor state.\<close>

definition store_Get_InitActorState :: "CborIpldStore \<Rightarrow> cid \<Rightarrow> error + InitActorState" where
  "store_Get_InitActorState cst c =
     (case store_Get cst c of
        Inl err \<Rightarrow> Inl err
      | Inr (InitStateBlock ias) \<Rightarrow> Inr ias
      | Inr _ \<Rightarrow> Inl (Errorf ''decode''))"

text \<open>
  Modelled from the spec: \<^verbatim>\<open>actors.InitActorState\<close> with its \<^verbatim>\<open>Lookup\<close> and \<^verbatim>\<open>AddActor\<close> is
  code of package \<^verbatim>\<open>actors\<close>, outside the code modelled here. By the spec the init actor's head
  points to a resolution table (address to canonical ID) and an allocator for the next
  canonical ID; a lookup fails with \<open>NotFound\<close> if the address has never been registered;
  an allocation binds a fresh canonical ID to the address, fails if the address is
  already registered, and persists the updated table.
\<close>

definition ias_Lookup :: "InitActorState \<Rightarrow> CborIpldStore \<Rightarrow> address \<Rightarrow> error + address" where
  "ias_Lookup ias cst addr =
     (case hamt_LoadTable cst (AddressMap ias) of
        Inl err \<Rightarrow> Inl err
      | Inr amap \<Rightarrow>
          (case hamt_Find cst amap addr of
             Inl err \<Rightarrow> Inl err
           | Inr n \<Rightarrow> Inr (IDAddress n)))"

definition ias_AddActor ::
  "InitActorState \<Rightarrow> CborIpldStore \<Rightarrow> address \<Rightarrow> (error + address) \<times> InitActorState \<times> CborIpldStore" where
  "ias_AddActor ias cst addr =
     (case hamt_LoadTable cst (AddressMap ias) of
        Inl err \<Rightarrow> (Inl err, ias, cst)
      | Inr amap \<Rightarrow>
          if map_of amap addr \<noteq> None then (Inl (Errorf ''address already registered''), ias, cst)
          else
            (case hamt_Set cst amap addr (NextID ias) of
               (Some err, amap1) \<Rightarrow> (Inl err, ias, cst)
             | (None, amap1) \<Rightarrow>
                 (case hamt_Flush cst amap1 of
                    Some err \<Rightarrow> (Inl err, ias, cst)
                  | None \<Rightarrow>
                      (case store_Put cst (IdTable amap1) of
                         (Inl err, cst1) \<Rightarrow> (Inl err, ias, cst1)
                       | (Inr ncid, cst1) \<Rightarrow>
                           (Inr (IDAddress (NextID ias)),
                            ias\<lparr>AddressMap := ncid, NextID := NextID ias + 1\<rparr>, cst1)))))"

text \<open>
  Modelled from the spec: \<^verbatim>\<open>simplelru.LRU\<close> is a library outside the repository; the
  spec asks for a bounded mapping that evicts the least recently used entry. The entries
  are kept most recent first. \<open>Get\<close> moves a hit to the front, \<open>Add\<close> puts the entry at
  the front and drops the oldest one when the size is exceeded, \<open>Purge\<close> empties it.
\<close>

record LRU =
  lru_size :: nat
  lru_items :: "(address \<times> address) list"

definition lru_NewLRU :: "int \<Rightarrow> error + LRU" where
  "lru_NewLRU n =
     (if n \<le> 0 then Inl (Errorf ''Must provide a positive size'')
      else Inr \<lparr>lru_size = nat n, lru_items = []\<rparr>)"

definition lru_Get :: "LRU \<Rightarrow> address \<Rightarrow> address option \<times> LRU" where
  "lru_Get c k =
     (case map_of (lru_items c) k of
        None \<Rightarrow> (None, c)
      | Some v \<Rightarrow> (Some v, c\<lparr>lru_items := (k, v) # AList.delete k (lru_items c)\<rparr>))"

definition lru_Add :: "LRU \<Rightarrow> address \<Rightarrow> address \<Rightarrow> LRU" where
  "lru_Add c k v =
     (if map_of (lru_items c) k \<noteq> None
      then c\<lparr>lru_items := (k, v) # AList.delete k (lru_items c)\<rparr>
      else
        let items = (k, v) # lru_items c
        in if length items > lru_size c then c\<lparr>lru_items := butlast items\<rparr>
           else c\<lparr>lru_items := items\<rparr>)"

definition lru_Purge :: "LRU \<Rightarrow> LRU" where
  "lru_Purge c = c\<lparr>lru_items := []\<rparr>"

section \<open>The state tree\<close>

text \<open>
  \<^verbatim>\<open>type StateTree struct\<close>. The actor cache holds pointers (\<^verbatim>\<open>*types.Actor\<close>), and the
  source compares them (\<^verbatim>\<open>act == cact\<close>) and mutates through them, so the model has the
  heap cells the pointers refer to: \<open>heap\<close> gives the record a pointer refers to and
  \<open>nextp\<close> is the next free cell. The Go map \<^verbatim>\<open>actorcache\<close> is an association list with one
  entry per key; the loop of \<open>Flush\<close> visits it in list order, one of the orders Go may
  choose.
\<close>

type_synonym ptr = nat

record StateTree =
  root :: "Actor hamt_Node"
  Store :: CborIpldStore
  actorcache :: "(address \<times> ptr) list"
  snapshot :: cid
  idCache :: LRU
  heap :: "ptr \<Rightarrow> Actor"
  nextp :: ptr

text \<open>\<^verbatim>\<open>&types.Actor{...}\<close> in a caller: a new heap cell holding the record.\<close>

definition new_Actor :: "Actor \<Rightarrow> StateTree \<Rightarrow> ptr \<times> StateTree" where
  "new_Actor a st = (nextp st, st\<lparr>heap := (heap st)(nextp st := a), nextp := Suc (nextp st)\<rparr>)"

definition zero_Actor :: Actor where
  "zero_Actor = \<lparr>Code = cid_Undef, Head = cid_Undef, Nonce = 0, Balance = 0\<rparr>"

definition NewStateTree :: "CborIpldStore \<Rightarrow> error + StateTree" where
  "NewStateTree cst =
     (case lru_NewLRU 1024 of
        Inl err \<Rightarrow> Inl (Errorf ''creating cache'')
      | Inr idc \<Rightarrow>
          Inr \<lparr>root = hamt_NewNode, Store = cst, actorcache = [], snapshot = cid_Undef,
               idCache = idc, heap = (\<lambda>p. zero_Actor), nextp = 0\<rparr>)"

definition LoadStateTree :: "CborIpldStore \<Rightarrow> cid \<Rightarrow> error + StateTree" where
  "LoadStateTree cst c =
     (case hamt_LoadNode cst c of
        Inl err \<Rightarrow> Inl err
      | Inr nd \<Rightarrow>
          (case lru_NewLRU 1024 of
             Inl err \<Rightarrow> Inl (Errorf ''creating cache'')
           | Inr idc \<Rightarrow>
               Inr \<lparr>root = nd, Store = cst, actorcache = [], snapshot = cid_Undef,
                    idCache = idc, heap = (\<lambda>p. zero_Actor), nextp = 0\<rparr>))"

text \<open>
  \<open>LookupID\<close> and \<open>GetActor\<close> call each other: resolving a non-canonical address reads
  the init actor through \<open>GetActor\<close>, which resolves the init actor's address first.
\<close>

function LookupID :: "address \<Rightarrow> StateTree \<Rightarrow> (error + address) \<times> StateTree"
  and GetActor :: "address \<Rightarrow> StateTree \<Rightarrow> (error + ptr) \<times> StateTree"
where
  "LookupID addr st =
     (case lru_Get (idCache st) addr of
        (Some cached, c) \<Rightarrow> (Inr cached, st\<lparr>idCache := c\<rparr>)
      | (None, c) \<Rightarrow>
          if Protocol addr = ID then (Inr addr, st\<lparr>idCache := c\<rparr>)
          else
            (case GetActor InitAddress (st\<lparr>idCache := c\<rparr>) of
               (Inl err, st1) \<Rightarrow> (Inl (Wrap ''getting init actor'' err), st1)
             | (Inr act, st1) \<Rightarrow>
                 (case store_Get_InitActorState (Store st1) (Head (heap st1 act)) of
                    Inl err \<Rightarrow> (Inl (Wrap ''loading init actor state'' err), st1)
                  | Inr ias \<Rightarrow>
                      (case ias_Lookup ias (Store st1) addr of
                         Inl err \<Rightarrow> (Inl (Wrap ''resolving id addr'' err), st1)
                       | Inr iaddr \<Rightarrow>
                           (Inr iaddr, st1\<lparr>idCache := lru_Add (idCache st1) addr iaddr\<rparr>)))))"
| "GetActor addr st =
     (if addr = Undef then (Inl (Errorf ''GetActor called on undefined address''), st)
      else
        (case LookupID addr st of
           (Inl err, st1) \<Rightarrow>
             if xerrors_Is err hamt_ErrNotFound
             then (Inl (Wrap ''resolution lookup failed'' ErrActorNotFound), st1)
             else (Inl (Wrap ''address resolution'' err), st1)
         | (Inr iaddr, st1) \<Rightarrow>
             (case map_of (actorcache st1) iaddr of
                Some cact \<Rightarrow> (Inr cact, st1)
              | None \<Rightarrow>
                  (case hamt_Find (Store st1) (root st1) iaddr of
                     Inl err \<Rightarrow>
                       if err = hamt_ErrNotFound then (Inl ErrActorNotFound, st1)
                       else (Inl (Wrap ''hamt find failed'' err), st1)
                   | Inr a \<Rightarrow>
                       (Inr (nextp st1),
                        st1\<lparr>heap := (heap st1)(nextp st1 := a),
                            nextp := Suc (nextp st1),
                            actorcache := AList.update iaddr (nextp st1) (actorcache st1)\<rparr>)))))"
  by pat_completeness auto

termination
  by (relation "measure (\<lambda>x. case x of
        Inl (addr, st) \<Rightarrow> (if Protocol addr = ID then 0 else 2)
      | Inr (addr, st) \<Rightarrow> (if Protocol addr = ID then 1 else 3))")
     (auto simp: InitAddress_def)

declare LookupID.simps [simp del] GetActor.simps [simp del]

definition SetActor :: "address \<Rightarrow> ptr \<Rightarrow> StateTree \<Rightarrow> error option \<times> StateTree" where
  "SetActor addr act st =
     (case LookupID addr st of
        (Inl err, st1) \<Rightarrow> (Some (Wrap ''ID lookup failed'' err), st1)
      | (Inr iaddr, st1) \<Rightarrow>
          if map_of (actorcache st1) iaddr = Some act then (None, st1)
          else
            let st2 = st1\<lparr>actorcache := AList.update iaddr act (actorcache st1)\<rparr>
            in (case hamt_Set (Store st2) (root st2) iaddr (heap st2 act) of
                  (r, n) \<Rightarrow> (r, st2\<lparr>root := n\<rparr>)))"

text \<open>The loop of \<open>Flush\<close> over the actor cache: stop at the first write that fails.\<close>

fun flush_writes ::
  "CborIpldStore \<Rightarrow> (ptr \<Rightarrow> Actor) \<Rightarrow> (address \<times> ptr) list \<Rightarrow> Actor hamt_Node
     \<Rightarrow> error option \<times> Actor hamt_Node" where
  "flush_writes cst h [] n = (None, n)"
| "flush_writes cst h ((addr, act) # rest) n =
     (case hamt_Set cst n addr (h act) of
        (Some err, n1) \<Rightarrow> (Some err, n1)
      | (None, n1) \<Rightarrow> flush_writes cst h rest n1)"

definition Flush :: "StateTree \<Rightarrow> (error + cid) \<times> StateTree" where
  "Flush st =
     (case flush_writes (Store st) (heap st) (actorcache st) (root st) of
        (Some err, n) \<Rightarrow> (Inl err, st\<lparr>root := n\<rparr>)
      | (None, n) \<Rightarrow>
          let st1 = st\<lparr>root := n, actorcache := []\<rparr>
          in (case hamt_Flush (Store st1) (root st1) of
                Some err \<Rightarrow> (Inl err, st1)
              | None \<Rightarrow>
                  (case store_Put (Store st1) (ActorTrie (root st1)) of
                     (r, cst1) \<Rightarrow> (r, st1\<lparr>Store := cst1\<rparr>))))"

definition Snapshot :: "StateTree \<Rightarrow> error option \<times> StateTree" where
  "Snapshot st =
     (case Flush st of
        (Inl err, st1) \<Rightarrow> (Some err, st1)
      | (Inr ss, st1) \<Rightarrow> (None, st1\<lparr>snapshot := ss\<rparr>))"

definition Revert :: "StateTree \<Rightarrow> error option \<times> StateTree" where
  "Revert st =
     (case hamt_LoadNode (Store st) (snapshot st) of
        Inl err \<Rightarrow> (Some err, st)
      | Inr nd \<Rightarrow> (None, st\<lparr>idCache := lru_Purge (idCache st), root := nd\<rparr>))"

text \<open>
  The function handed to \<open>MutateActor\<close> is a Go closure over a pointer to the record.
  In the model it maps the record it finds to the record it leaves behind, whether or not
  it fails; it may also use the store of the tree (\<^verbatim>\<open>st.Store\<close> is a shared pointer) and
  the variables \<open>'e\<close> it captured.
\<close>

type_synonym 'e mutator =
  "Actor \<Rightarrow> CborIpldStore \<Rightarrow> 'e \<Rightarrow> error option \<times> Actor \<times> CborIpldStore \<times> 'e"

definition MutateActor ::
  "address \<Rightarrow> 'e mutator \<Rightarrow> 'e \<Rightarrow> StateTree \<Rightarrow> error option \<times> 'e \<times> StateTree" where
  "MutateActor addr f env st =
     (case GetActor addr st of
        (Inl err, st1) \<Rightarrow> (Some err, env, st1)
      | (Inr act, st1) \<Rightarrow>
          (case f (heap st1 act) (Store st1) env of
             (r, a, cst1, env1) \<Rightarrow>
               let st2 = st1\<lparr>heap := (heap st1)(act := a), Store := cst1\<rparr>
               in (case r of
                     Some err \<Rightarrow> (Some err, env1, st2)
                   | None \<Rightarrow> (case SetActor addr act st2 of (r1, st3) \<Rightarrow> (r1, env1, st3)))))"

text \<open>The closure of \<open>RegisterNewAddress\<close>; the captured variable is \<open>out\<close>.\<close>

definition register_closure :: "address \<Rightarrow> address mutator" where
  "register_closure addr initact cst out =
     (case store_Get_InitActorState cst (Head initact) of
        Inl err \<Rightarrow> (Some err, initact, cst, out)
      | Inr ias \<Rightarrow>
          (case ias_AddActor ias cst addr of
             (Inl err, ias1, cst1) \<Rightarrow> (Some err, initact, cst1, out)
           | (Inr oaddr, ias1, cst1) \<Rightarrow>
               (case store_Put cst1 (InitStateBlock ias1) of
                  (Inl err, cst2) \<Rightarrow> (Some err, initact, cst2, oaddr)
                | (Inr ncid, cst2) \<Rightarrow> (None, initact\<lparr>Head := ncid\<rparr>, cst2, oaddr))))"

definition RegisterNewAddress ::
  "address \<Rightarrow> ptr \<Rightarrow> StateTree \<Rightarrow> (error + address) \<times> StateTree" where
  "RegisterNewAddress addr act st =
     (case MutateActor InitAddress (register_closure addr) Undef st of
        (Some err, out, st1) \<Rightarrow> (Inl err, st1)
      | (None, out, st1) \<Rightarrow>
          (case SetActor out act st1 of
             (Some err, st2) \<Rightarrow> (Inl err, st2)
           | (None, st2) \<Rightarrow> (Inr out, st2)))"

section \<open>Invariants of a state tree\<close>

text \<open>
  The ID cache is made by \<^verbatim>\<open>lru.NewLRU(1024, nil)\<close>, so its size is positive, and the only
  place that adds to it is the end of \<open>LookupID\<close>, reached for addresses that are not in
  ID form: no key of the ID cache is a canonical address.
\<close>

definition idCache_wf :: "StateTree \<Rightarrow> bool" where
  "idCache_wf st \<longleftrightarrow>
     0 < lru_size (idCache st) \<and> (\<forall>k \<in> fst ` set (lru_items (idCache st)). Protocol k \<noteq> ID)"

text \<open>
  The actor cache has one entry per key (it is a Go map), and the pointers it holds refer
  to cells that have been allocated.
\<close>

definition tree_wf :: "StateTree \<Rightarrow> bool" where
  "tree_wf st \<longleftrightarrow>
     idCache_wf st \<and> distinct (map fst (actorcache st)) \<and>
     (\<forall>p \<in> snd ` set (actorcache st). p < nextp st)"

text \<open>
  What a read (\<open>LookupID\<close>, \<open>GetActor\<close>) may change: the two caches and fresh heap cells.
  It leaves the trie, the store, the snapshot reference and every allocated cell alone.
\<close>

definition reads_only :: "StateTree \<Rightarrow> StateTree \<Rightarrow> bool" where
  "reads_only st st1 \<longleftrightarrow>
     root st1 = root st \<and> Store st1 = Store st \<and> snapshot st1 = snapshot st \<and>
     lru_size (idCache st1) = lru_size (idCache st) \<and>
     nextp st \<le> nextp st1 \<and> (\<forall>p < nextp st. heap st1 p = heap st p)"

section \<open>Example trees\<close>

text \<open>Concrete stores, records and trees at which the theorems below are instantiated.\<close>

definition ex_store0 :: CborIpldStore where
  "ex_store0 = \<lparr>blocks = [], faults = {}\<rparr>"

definition ex_tree0 :: StateTree where
  "ex_tree0 = \<lparr>root = [], Store = ex_store0, actorcache = [], snapshot = cid_Undef,
      idCache = \<lparr>lru_size = 1024, lru_items = []\<rparr>, heap = (\<lambda>p. zero_Actor), nextp = 0\<rparr>"

definition ex_actor1 :: Actor where
  "ex_actor1 = \<lparr>Code = Cid 100, Head = Cid 500, Nonce = 0, Balance = 5\<rparr>"

definition ex_actor2 :: Actor where
  "ex_actor2 = \<lparr>Code = Cid 100, Head = Cid 500, Nonce = 1, Balance = 7\<rparr>"

text \<open>The empty tree after \<^verbatim>\<open>SetActor\<close> of a new record at ID address 1.\<close>

definition ex_tree1 :: StateTree where
  "ex_tree1 = snd (SetActor (IDAddress 1) 0 (snd (new_Actor ex_actor1 ex_tree0)))"

text \<open>What a caller reads through the pointer that \<open>GetActor\<close> returns.\<close>

definition GetActor_record :: "address \<Rightarrow> StateTree \<Rightarrow> error + Actor" where
  "GetActor_record addr st =
     (case GetActor addr st of (Inl err, st1) \<Rightarrow> Inl err | (Inr p, st1) \<Rightarrow> Inr (heap st1 p))"

text \<open>
  A store holding an empty address table, the state of an init actor whose next free ID is
  100, and the trie with that init actor; and the tree that \<open>LoadStateTree\<close> makes of it.
\<close>

definition ex_init_actor :: Actor where
  "ex_init_actor = \<lparr>Code = Cid 1000, Head = Cid 1, Nonce = 0, Balance = 0\<rparr>"

definition ex_store_init :: CborIpldStore where
  "ex_store_init =
     \<lparr>blocks = [IdTable [], InitStateBlock \<lparr>AddressMap = Cid 0, NextID = 100\<rparr>,
                ActorTrie [(InitAddress, ex_init_actor)]],
      faults = {}\<rparr>"

definition ex_tree_init :: StateTree where
  "ex_tree_init = \<lparr>root = [(InitAddress, ex_init_actor)], Store = ex_store_init, actorcache = [],
      snapshot = cid_Undef, idCache = \<lparr>lru_size = 1024, lru_items = []\<rparr>,
      heap = (\<lambda>p. zero_Actor), nextp = 0\<rparr>"

text \<open>Trees in which an address has been registered: the undefined address, and a key address.\<close>

definition ex_tree_undef :: StateTree where
  "ex_tree_undef = snd (new_Actor ex_actor2 (snd (RegisterNewAddress Undef 0 (snd (new_Actor ex_actor1 ex_tree_init)))))"

definition ex_tree_key :: StateTree where
  "ex_tree_key = snd (new_Actor ex_actor2
     (snd (RegisterNewAddress (SECP256K1Address ''k'') 0 (snd (new_Actor ex_actor1 ex_tree_init)))))"

text \<open>Snapshot, a later write to the same address, and revert.\<close>

definition ex_tree_snap :: StateTree where
  "ex_tree_snap = snd (Snapshot ex_tree1)"

definition ex_tree_mut :: StateTree where
  "ex_tree_mut = snd (SetActor (IDAddress 1) 1 (snd (new_Actor ex_actor2 ex_tree_snap)))"

definition ex_tree_rev :: StateTree where
  "ex_tree_rev = snd (Revert ex_tree_mut)"

text \<open>Snapshot, a later registration of a new address, and revert.\<close>

definition ex_tree_snap2 :: StateTree where
  "ex_tree_snap2 = snd (Snapshot (snd (new_Actor ex_actor1 ex_tree_init)))"

definition ex_tree_reg2 :: StateTree where
  "ex_tree_reg2 = snd (RegisterNewAddress (SECP256K1Address ''k'') 0 ex_tree_snap2)"

definition ex_tree_rev2 :: StateTree where
  "ex_tree_rev2 = snd (Revert ex_tree_reg2)"

text \<open>Trees over a store that refuses one operation: the put, a get, a trie lookup, a trie write.\<close>

definition ex_tree_putfault :: StateTree where
  "ex_tree_putfault = ex_tree1\<lparr>Store := \<lparr>blocks = [], faults = {OpPut}\<rparr>\<rparr>"

definition ex_tree_getfault :: StateTree where
  "ex_tree_getfault = ex_tree_init\<lparr>Store := ex_store_init\<lparr>faults := {OpGet (Cid 1)}\<rparr>\<rparr>"

definition ex_tree_findfault :: StateTree where
  "ex_tree_findfault = ex_tree0\<lparr>Store := \<lparr>blocks = [], faults = {OpFind (IDAddress 5)}\<rparr>\<rparr>"

definition ex_tree_setfault :: StateTree where
  "ex_tree_setfault =
     snd (new_Actor ex_actor1 (ex_tree_init\<lparr>Store := ex_store_init\<lparr>faults := {OpSet (IDAddress 100)}\<rparr>\<rparr>))"

text \<open>The registration of a key address in the last tree, up to the final \<open>SetActor\<close>.\<close>

definition ex_mutated :: "error option \<times> address \<times> StateTree" where
  "ex_mutated = MutateActor InitAddress (register_closure (SECP256K1Address ''k'')) Undef ex_tree_setfault"

definition ex_tree_regfail :: StateTree where
  "ex_tree_regfail = snd (SetActor (IDAddress 100) 0 (snd (snd ex_mutated)))"


text \<open>
  A tree with two cached actors, at ID addresses 1 and 2, over a store that refuses the
  trie write of the second.
\<close>

definition ex_tree2 :: StateTree where
  "ex_tree2 = snd (SetActor (IDAddress 2) 1 (snd (new_Actor ex_actor2 ex_tree1)))"

definition ex_tree_writefault :: StateTree where
  "ex_tree_writefault = ex_tree2\<lparr>Store := \<lparr>blocks = [], faults = {OpSet (IDAddress 2)}\<rparr>\<rparr>"

text \<open>
  A tree whose init actor state has 0 as next free ID, the ID of the init actor itself, over
  a store that refuses the trie write under that ID; and the registration of a key address
  in it.
\<close>

definition ex_tree_zero :: StateTree where
  "ex_tree_zero =
     snd (new_Actor ex_actor1
       \<lparr>root = [(InitAddress, ex_init_actor)],
        Store = \<lparr>blocks = [IdTable [], InitStateBlock \<lparr>AddressMap = Cid 0, NextID = 0\<rparr>,
                          ActorTrie [(InitAddress, ex_init_actor)]],
                 faults = {OpSet InitAddress}\<rparr>,
        actorcache = [], snapshot = cid_Undef, idCache = \<lparr>lru_size = 1024, lru_items = []\<rparr>,
        heap = (\<lambda>p. zero_Actor), nextp = 0\<rparr>)"

definition ex_mutated_zero :: "error option \<times> address \<times> StateTree" where
  "ex_mutated_zero =
     MutateActor InitAddress (register_closure (SECP256K1Address ''k'')) Undef ex_tree_zero"

text \<open>A mutation function that bumps the nonce and then fails.\<close>

definition ex_failing_mutator :: "unit mutator" where
  "ex_failing_mutator a cst env = (Some (Errorf ''rejected''), a\<lparr>Nonce := Nonce a + 1\<rparr>, cst, env)"

section \<open>The LRU cache\<close>

lemma lru_Get_miss: "map_of (lru_items c) k = None \<Longrightarrow> lru_Get c k = (None, c)"
  by (simp add: lru_Get_def)

lemma lru_Get_None_iff: "fst (lru_Get c k) = None \<longleftrightarrow> map_of (lru_items c) k = None"
  by (simp add: lru_Get_def split: option.splits)

lemma lru_Get_hit_again:
  assumes "lru_Get c k = (Some v, c1)"
  shows "lru_Get c1 k = (Some v, c1)"
proof -
  from assms have c1: "c1 = c\<lparr>lru_items := (k, v) # AList.delete k (lru_items c)\<rparr>"
    by (auto simp: lru_Get_def split: option.splits)
  show ?thesis
    by (simp add: c1 lru_Get_def delete_idem)
qed

lemma lru_Get_size: "lru_size (snd (lru_Get c k)) = lru_size c"
  by (simp add: lru_Get_def split: option.splits)

lemma lru_Add_size: "lru_size (lru_Add c k v) = lru_size c"
  by (simp add: lru_Add_def Let_def)

lemma map_of_butlast_None: "map_of xs k = None \<Longrightarrow> map_of (butlast xs) k = None"
  by (induction xs) (auto split: if_splits)

lemma lru_Get_after_Add:
  assumes "0 < lru_size c"
  shows "lru_Get (lru_Add c k v) k = (Some v, lru_Add c k v)"
proof (cases "map_of (lru_items c) k")
  case (Some w)
  then show ?thesis
    by (simp add: lru_Add_def lru_Get_def delete_idem)
next
  case None
  then have notin: "k \<notin> fst ` set (butlast (lru_items c))" "k \<notin> fst ` set (lru_items c)"
    using map_of_butlast_None [OF None] by (simp_all add: map_of_eq_None_iff)
  show ?thesis
  proof (cases "Suc (length (lru_items c)) > lru_size c")
    case True
    with assms have ne: "lru_items c \<noteq> []" by auto
    with None True notin show ?thesis
      by (simp add: lru_Add_def lru_Get_def Let_def)
  next
    case False
    with None notin show ?thesis
      by (simp add: lru_Add_def lru_Get_def Let_def)
  qed
qed

lemma lru_Get_keys: "fst ` set (lru_items (snd (lru_Get c k))) = fst ` set (lru_items c)"
proof (cases "map_of (lru_items c) k")
  case None then show ?thesis by (simp add: lru_Get_def)
next
  case (Some v)
  then have "k \<in> fst ` set (lru_items c)" using map_of_SomeD [OF Some] by force
  moreover have "fst ` set (AList.delete k (lru_items c)) = fst ` set (lru_items c) - {k}"
    by (metis delete_keys list.set_map set_removeAll)
  ultimately show ?thesis using Some by (auto simp: lru_Get_def)
qed

lemma lru_Add_keys: "fst ` set (lru_items (lru_Add c k v)) \<subseteq> insert k (fst ` set (lru_items c))"
proof -
  have d: "fst ` set (AList.delete k (lru_items c)) \<subseteq> fst ` set (lru_items c)"
    by (rule dom_delete_subset)
  have b: "set (butlast (lru_items c)) \<subseteq> set (lru_items c)"
    by (auto dest: in_set_butlastD)
  show ?thesis using d b
    by (auto simp: lru_Add_def Let_def dest: in_set_butlastD)
qed

section \<open>Resolution of canonical addresses\<close>

lemma LookupID_canonical_eq:
  "Protocol addr = ID \<Longrightarrow>
   LookupID addr st =
     (case lru_Get (idCache st) addr of
        (Some cached, c) \<Rightarrow> (Inr cached, st\<lparr>idCache := c\<rparr>)
      | (None, c) \<Rightarrow> (Inr addr, st\<lparr>idCache := c\<rparr>))"
  by (simp add: LookupID.simps split: prod.splits option.splits)

lemma LookupID_canonical_miss:
  "Protocol addr = ID \<Longrightarrow> map_of (lru_items (idCache st)) addr = None \<Longrightarrow> LookupID addr st = (Inr addr, st)"
  by (simp add: LookupID_canonical_eq lru_Get_miss)

lemma LookupID_canonical_wf:
  "Protocol addr = ID \<Longrightarrow> idCache_wf st \<Longrightarrow> LookupID addr st = (Inr addr, st)"
  by (rule LookupID_canonical_miss) (auto simp: idCache_wf_def map_of_eq_None_iff)

section \<open>What reads change\<close>

lemma reads_only_refl: "reads_only st st"
  by (simp add: reads_only_def)

lemma reads_only_trans: "reads_only a b \<Longrightarrow> reads_only b c \<Longrightarrow> reads_only a c"
  by (auto simp: reads_only_def)

lemma reads_only_idCache:
  "lru_size c = lru_size (idCache st) \<Longrightarrow> reads_only st (st\<lparr>idCache := c\<rparr>)"
  by (simp add: reads_only_def)

lemma LookupID_GetActor_reads_only:
  "(\<forall>r st1. LookupID addr st = (r, st1) \<longrightarrow> reads_only st st1)"
  "(\<forall>r st1. GetActor addr' st' = (r, st1) \<longrightarrow> reads_only st' st1)"
proof (induction addr st and addr' st' rule: LookupID_GetActor.induct)
  case (1 addr st)
  show ?case
  proof (intro allI impI)
    fix r st1
    assume eq: "LookupID addr st = (r, st1)"
    obtain h c where g: "lru_Get (idCache st) addr = (h, c)" by (cases "lru_Get (idCache st) addr")
    have sz: "lru_size c = lru_size (idCache st)" using lru_Get_size [of "idCache st" addr] g by simp
    have base: "reads_only st (st\<lparr>idCache := c\<rparr>)" using sz by (rule reads_only_idCache)
    show "reads_only st st1"
    proof (cases "h \<noteq> None \<or> Protocol addr = ID")
      case True
      with eq g have "st1 = st\<lparr>idCache := c\<rparr>"
        by (auto simp: LookupID.simps split: option.splits)
      with base show ?thesis by simp
    next
      case False
      then have h: "h = None" and np: "Protocol addr \<noteq> ID" by auto
      obtain r2 st2 where ga: "GetActor InitAddress (st\<lparr>idCache := c\<rparr>) = (r2, st2)"
        by (cases "GetActor InitAddress (st\<lparr>idCache := c\<rparr>)")
      have ih: "reads_only (st\<lparr>idCache := c\<rparr>) st2"
        using "1.IH" [OF g [symmetric, unfolded h] _ np] ga h by blast
      have "reads_only st2 st1"
        using eq g h np ga
        by (auto simp: LookupID.simps reads_only_def lru_Add_size split: sum.splits)
      with base ih show ?thesis by (blast intro: reads_only_trans)
    qed
  qed
next
  case (2 addr st)
  show ?case
  proof (intro allI impI)
    fix r st1
    assume eq: "GetActor addr st = (r, st1)"
    show "reads_only st st1"
    proof (cases "addr = Undef")
      case True
      with eq show ?thesis by (simp add: GetActor.simps reads_only_refl)
    next
      case False
      obtain r2 st2 where l: "LookupID addr st = (r2, st2)" by (cases "LookupID addr st")
      have ih: "reads_only st st2" using "2.IH" [OF False] l by blast
      have "reads_only st2 st1"
        using eq l False
        by (auto simp: GetActor.simps reads_only_def split: sum.splits option.splits if_splits)
      with ih show ?thesis by (blast intro: reads_only_trans)
    qed
  qed
qed

lemma set_update_subset: "set (AList.update k v al) \<subseteq> insert (k, v) (set al)"
  by (induction al) auto

lemma idCache_wf_Get:
  assumes "idCache_wf st" "lru_Get (idCache st) addr = (h, c)"
  shows "idCache_wf (st\<lparr>idCache := c\<rparr>)"
  using assms lru_Get_keys [of "idCache st" addr] lru_Get_size [of "idCache st" addr]
  by (simp add: idCache_wf_def)

lemma idCache_wf_Add:
  assumes "idCache_wf st" "Protocol addr \<noteq> ID"
  shows "idCache_wf (st\<lparr>idCache := lru_Add (idCache st) addr v\<rparr>)"
proof -
  have "Protocol k \<noteq> ID" if "k \<in> fst ` set (lru_items (lru_Add (idCache st) addr v))" for k
  proof -
    from that lru_Add_keys [of "idCache st" addr v]
    have "k = addr \<or> k \<in> fst ` set (lru_items (idCache st))" by blast
    with assms show ?thesis unfolding idCache_wf_def by blast
  qed
  moreover have "0 < lru_size (lru_Add (idCache st) addr v)"
    using assms(1) by (simp add: idCache_wf_def lru_Add_size)
  ultimately show ?thesis unfolding idCache_wf_def by simp
qed

lemma tree_wf_idCache:
  "tree_wf st \<Longrightarrow> idCache_wf (st\<lparr>idCache := c\<rparr>) \<Longrightarrow> tree_wf (st\<lparr>idCache := c\<rparr>)"
  by (simp add: tree_wf_def)

lemma tree_wf_read_through:
  assumes "tree_wf st"
  shows "tree_wf (st\<lparr>heap := (heap st)(nextp st := a), nextp := Suc (nextp st),
                    actorcache := AList.update k (nextp st) (actorcache st)\<rparr>)"
proof -
  have "p < Suc (nextp st)" if "p \<in> snd ` set (AList.update k (nextp st) (actorcache st))" for p
  proof -
    from that set_update_subset [of k "nextp st" "actorcache st"]
    have "p = nextp st \<or> p \<in> snd ` set (actorcache st)" by force
    with assms show ?thesis unfolding tree_wf_def by (auto simp: less_Suc_eq)
  qed
  moreover have "distinct (map fst (AList.update k (nextp st) (actorcache st)))"
    using assms by (simp add: tree_wf_def distinct_update)
  moreover have "idCache_wf st" using assms by (simp add: tree_wf_def)
  ultimately show ?thesis unfolding tree_wf_def idCache_wf_def by simp
qed

lemma LookupID_GetActor_tree_wf:
  "(\<forall>r st1. tree_wf st \<longrightarrow> LookupID addr st = (r, st1) \<longrightarrow> tree_wf st1)"
  "(\<forall>r st1. tree_wf st' \<longrightarrow> GetActor addr' st' = (r, st1) \<longrightarrow> tree_wf st1)"
proof (induction addr st and addr' st' rule: LookupID_GetActor.induct)
  case (1 addr st)
  show ?case
  proof (intro allI impI)
    fix r st1
    assume wf: "tree_wf st" and eq: "LookupID addr st = (r, st1)"
    obtain h c where g: "lru_Get (idCache st) addr = (h, c)" by (cases "lru_Get (idCache st) addr")
    have base: "tree_wf (st\<lparr>idCache := c\<rparr>)"
      using wf idCache_wf_Get [OF _ g] by (simp add: tree_wf_def)
    show "tree_wf st1"
    proof (cases "h \<noteq> None \<or> Protocol addr = ID")
      case True
      with eq g have "st1 = st\<lparr>idCache := c\<rparr>"
        by (auto simp: LookupID.simps split: option.splits)
      with base show ?thesis by simp
    next
      case False
      then have h: "h = None" and np: "Protocol addr \<noteq> ID" by auto
      obtain r2 st2 where ga: "GetActor InitAddress (st\<lparr>idCache := c\<rparr>) = (r2, st2)"
        by (cases "GetActor InitAddress (st\<lparr>idCache := c\<rparr>)")
      have ih: "tree_wf st2"
        using "1.IH" [OF g [symmetric, unfolded h] _ np] ga h base by blast
      have "st1 = st2 \<or> (\<exists>v. st1 = st2\<lparr>idCache := lru_Add (idCache st2) addr v\<rparr>)"
        using eq g h np ga
        by (auto simp: LookupID.simps split: sum.splits)
      then show ?thesis
      proof
        assume "st1 = st2" with ih show ?thesis by simp
      next
        assume "\<exists>v. st1 = st2\<lparr>idCache := lru_Add (idCache st2) addr v\<rparr>"
        then obtain v where s: "st1 = st2\<lparr>idCache := lru_Add (idCache st2) addr v\<rparr>" ..
        have "idCache_wf st1" unfolding s using ih np by (intro idCache_wf_Add) (simp_all add: tree_wf_def)
        then show ?thesis unfolding s using ih by (intro tree_wf_idCache) 
      qed
    qed
  qed
next
  case (2 addr st)
  show ?case
  proof (intro allI impI)
    fix r st1
    assume wf: "tree_wf st" and eq: "GetActor addr st = (r, st1)"
    show "tree_wf st1"
    proof (cases "addr = Undef")
      case True
      with eq wf show ?thesis by (simp add: GetActor.simps)
    next
      case False
      obtain r2 st2 where l: "LookupID addr st = (r2, st2)" by (cases "LookupID addr st")
      have ih: "tree_wf st2" using "2.IH" [OF False] l wf by blast
      have "st1 = st2 \<or> (\<exists>a k. st1 = st2\<lparr>heap := (heap st2)(nextp st2 := a), nextp := Suc (nextp st2),
                    actorcache := AList.update k (nextp st2) (actorcache st2)\<rparr>)"
        using eq l False
        by (auto simp: GetActor.simps split: sum.splits option.splits if_splits)
      with ih show ?thesis by (auto intro: tree_wf_read_through)
    qed
  qed
qed

lemma LookupID_tree_wf: "tree_wf st \<Longrightarrow> LookupID addr st = (r, st1) \<Longrightarrow> tree_wf st1"
  using LookupID_GetActor_tree_wf(1) by blast

lemma GetActor_tree_wf: "tree_wf st \<Longrightarrow> GetActor addr st = (r, st1) \<Longrightarrow> tree_wf st1"
  using LookupID_GetActor_tree_wf(2) by blast

lemma LookupID_reads_only: "LookupID addr st = (r, st1) \<Longrightarrow> reads_only st st1"
  using LookupID_GetActor_reads_only(1) by blast

lemma GetActor_reads_only: "GetActor addr st = (r, st1) \<Longrightarrow> reads_only st st1"
  using LookupID_GetActor_reads_only(2) by blast

subsection \<open>Resolving the same address again\<close>

lemma LookupID_again:
  assumes l: "LookupID addr st = (Inr iaddr, st1)"
    and sz: "0 < lru_size (idCache st)"
    and same: "idCache st2 = idCache st1"
  shows "LookupID addr st2 = (Inr iaddr, st2)"
proof -
  obtain h c where g: "lru_Get (idCache st) addr = (h, c)" by (cases "lru_Get (idCache st) addr")
  show ?thesis
  proof (cases h)
    case (Some v)
    with l g have r: "iaddr = v" "idCache st1 = c"
      by (auto simp: LookupID.simps)
    from g Some have "lru_Get c addr = (Some v, c)" by (simp add: lru_Get_hit_again)
    with r same show ?thesis by (simp add: LookupID.simps)
  next
    case None
    with g have c: "c = idCache st" and miss: "map_of (lru_items (idCache st)) addr = None"
      by (auto simp: lru_Get_def split: option.splits)
    show ?thesis
    proof (cases "Protocol addr = ID")
      case True
      with l g None c have "iaddr = addr" "st1 = st"
        by (auto simp: LookupID.simps)
      with same miss True show ?thesis by (simp add: LookupID_canonical_miss)
    next
      case False
      obtain r2 st3 where ga: "GetActor InitAddress st = (r2, st3)"
        by (cases "GetActor InitAddress st")
      have ro: "reads_only st st3" using ga by (rule GetActor_reads_only)
      from l g None c False ga
      have "idCache st1 = lru_Add (idCache st3) addr iaddr"
        by (auto simp: LookupID.simps split: sum.splits)
      moreover have "0 < lru_size (idCache st3)" using ro sz by (simp add: reads_only_def)
      ultimately have "lru_Get (idCache st2) addr = (Some iaddr, idCache st2)"
        using same by (simp add: lru_Get_after_Add)
      then show ?thesis by (simp add: LookupID.simps)
    qed
  qed
qed

lemma GetActor_cached:
  assumes "addr \<noteq> Undef" "LookupID addr st = (Inr iaddr, st1)" "map_of (actorcache st1) iaddr = Some p"
  shows "GetActor addr st = (Inr p, st1)"
  using assms by (simp add: GetActor.simps)

lemma GetActor_again:
  assumes g: "GetActor addr st = (Inr p, st1)"
    and sz: "0 < lru_size (idCache st)"
    and same: "idCache st2 = idCache st1" "actorcache st2 = actorcache st1"
  shows "GetActor addr st2 = (Inr p, st2)"
proof -
  from g have nu: "addr \<noteq> Undef" by (auto simp: GetActor.simps split: if_splits)
  obtain r sta where l: "LookupID addr st = (r, sta)" by (cases "LookupID addr st")
  with g nu obtain iaddr where r: "r = Inr iaddr"
    by (cases r) (auto simp: GetActor.simps split: if_splits)
  from g nu l r have c: "map_of (actorcache st1) iaddr = Some p" and ic: "idCache st1 = idCache sta"
    by (auto simp: GetActor.simps update_conv' split: option.splits sum.splits if_splits)
  have "LookupID addr st2 = (Inr iaddr, st2)"
    using l [unfolded r] sz by (rule LookupID_again) (simp add: same ic)
  with nu c same show ?thesis by (intro GetActor_cached) simp_all
qed

section \<open>Evaluation of the examples\<close>

text \<open>The definitions that \<open>simp\<close> unfolds to run the operations on the example trees.\<close>

lemmas ex_defs = ex_store0_def ex_tree0_def ex_actor1_def ex_actor2_def
lemmas eval_defs = NewStateTree_def LoadStateTree_def lru_NewLRU_def new_Actor_def SetActor_def
  LookupID.simps GetActor.simps lru_Get_def lru_Add_def lru_Purge_def hamt_NewNode_def
  hamt_Set_def hamt_Find_def hamt_Flush_def hamt_LoadNode_def store_Put_def store_Get_def
  Snapshot_def Flush_def Revert_def InitAddress_def zero_Actor_def

lemma NewStateTree_ex: "NewStateTree ex_store0 = Inr ex_tree0"
  by (simp add: ex_defs eval_defs)

lemmas ex_defs2 = ex_defs ex_init_actor_def ex_store_init_def ex_tree_init_def
lemmas eval_defs2 = eval_defs RegisterNewAddress_def MutateActor_def register_closure_def
  store_Get_InitActorState_def ias_AddActor_def ias_Lookup_def hamt_LoadTable_def

lemma LoadStateTree_ex: "LoadStateTree ex_store_init (Cid 2) = Inr ex_tree_init"
  by (simp add: ex_defs2 eval_defs2)

section \<open>Resolution\<close>



lemma idCache_wf_ex_tree1: "idCache_wf ex_tree1"
  by (simp add: ex_tree1_def ex_defs eval_defs idCache_wf_def)


section \<open>Errors of GetActor\<close>

lemma hamt_Find_error: "hamt_Find cst n k = Inl err \<Longrightarrow> err = hamt_ErrNotFound \<or> err = ErrStorage"
  by (auto simp: hamt_Find_def split: if_splits option.splits)

lemma GetActor_resolution_failed:
  assumes "addr \<noteq> Undef" and "LookupID addr st = (Inl err, sta)"
  shows "GetActor addr st =
           (Inl (if xerrors_Is err hamt_ErrNotFound
                 then Wrap ''resolution lookup failed'' ErrActorNotFound
                 else Wrap ''address resolution'' err), sta)"
  using assms by (simp add: GetActor.simps)

lemma GetActor_find_failed:
  assumes "addr \<noteq> Undef" and "LookupID addr st = (Inr iaddr, sta)"
    and "map_of (actorcache sta) iaddr = None"
    and "hamt_Find (Store sta) (root sta) iaddr = Inl err"
  shows "GetActor addr st =
           (Inl (if err = hamt_ErrNotFound then ErrActorNotFound
                 else Wrap ''hamt find failed'' err), sta)"
  using assms by (simp add: GetActor.simps)

text \<open>
  Claim C5. In \<open>GetActor\<close> of a defined address, an error of the resolution that is (or
  wraps) \<^verbatim>\<open>hamt.ErrNotFound\<close> comes out as an \<open>ActorNotFound\<close> error that no longer carries the
  trie's error; every other error of the resolution comes out wrapped, so it still is
  that error and is an \<open>ActorNotFound\<close> only if it was one already. When the resolution
  succeeds and the actor is not cached, \<^verbatim>\<open>hamt.ErrNotFound\<close> from the trie lookup comes
  out as \<open>ActorNotFound\<close> itself and every other error of the trie comes out wrapped and is
  not an \<open>ActorNotFound\<close>. In each case the tree is left as the resolution left it.
\<close>

theorem GetActor_error_translation:
  assumes "addr \<noteq> Undef"
  shows "(\<forall>err sta. LookupID addr st = (Inl err, sta) \<longrightarrow>
            (\<exists>e. GetActor addr st = (Inl e, sta) \<and>
               (xerrors_Is err hamt_ErrNotFound \<longrightarrow>
                  xerrors_Is e ErrActorNotFound \<and> \<not> xerrors_Is e hamt_ErrNotFound) \<and>
               (\<not> xerrors_Is err hamt_ErrNotFound \<longrightarrow>
                  xerrors_Is e err \<and>
                  (xerrors_Is e ErrActorNotFound \<longleftrightarrow> xerrors_Is err ErrActorNotFound)))) \<and>
         (\<forall>iaddr sta err.
            LookupID addr st = (Inr iaddr, sta) \<and> map_of (actorcache sta) iaddr = None \<and>
            hamt_Find (Store sta) (root sta) iaddr = Inl err \<longrightarrow>
            (\<exists>e. GetActor addr st = (Inl e, sta) \<and>
               (err = hamt_ErrNotFound \<longrightarrow> e = ErrActorNotFound) \<and>
               (err \<noteq> hamt_ErrNotFound \<longrightarrow>
                  xerrors_Is e err \<and> \<not> xerrors_Is e ErrActorNotFound)))"
proof (intro conjI allI impI)
  fix err sta
  assume l: "LookupID addr st = (Inl err, sta)"
  show "\<exists>e. GetActor addr st = (Inl e, sta) \<and>
          (xerrors_Is err hamt_ErrNotFound \<longrightarrow>
             xerrors_Is e ErrActorNotFound \<and> \<not> xerrors_Is e hamt_ErrNotFound) \<and>
          (\<not> xerrors_Is err hamt_ErrNotFound \<longrightarrow>
             xerrors_Is e err \<and>
             (xerrors_Is e ErrActorNotFound \<longleftrightarrow> xerrors_Is err ErrActorNotFound))"
  proof (cases "xerrors_Is err hamt_ErrNotFound")
    case True
    with GetActor_resolution_failed [OF assms l] show ?thesis by simp
  next
    case False
    have "xerrors_Is err err" by (cases err) simp_all
    with False GetActor_resolution_failed [OF assms l] show ?thesis by simp
  qed
next
  fix iaddr sta err
  assume h: "LookupID addr st = (Inr iaddr, sta) \<and> map_of (actorcache sta) iaddr = None \<and>
            hamt_Find (Store sta) (root sta) iaddr = Inl err"
  then have g: "GetActor addr st =
           (Inl (if err = hamt_ErrNotFound then ErrActorNotFound
                 else Wrap ''hamt find failed'' err), sta)"
    using GetActor_find_failed [OF assms] by blast
  from h have "err = hamt_ErrNotFound \<or> err = ErrStorage" by (blast dest: hamt_Find_error)
  with g show "\<exists>e. GetActor addr st = (Inl e, sta) \<and>
               (err = hamt_ErrNotFound \<longrightarrow> e = ErrActorNotFound) \<and>
               (err \<noteq> hamt_ErrNotFound \<longrightarrow>
                  xerrors_Is e err \<and> \<not> xerrors_Is e ErrActorNotFound)"
    by auto
qed

lemma LookupID_ex_tree_getfault:
  "fst (LookupID (SECP256K1Address ''k'') ex_tree_getfault) =
     Inl (Wrap ''loading init actor state'' ErrStorage)"
  by (simp add: ex_tree_getfault_def ex_defs2 eval_defs2)

lemma LookupID_ex_tree_init_unregistered:
  "fst (LookupID (SECP256K1Address ''k'') ex_tree_init) =
     Inl (Wrap ''resolving id addr'' hamt_ErrNotFound)"
  by (simp add: ex_defs2 eval_defs2)

theorem GetActor_error_translation_witness:
  "SECP256K1Address ''k'' \<noteq> Undef \<and>
   LookupID (SECP256K1Address ''k'') ex_tree_getfault =
     (Inl (Wrap ''loading init actor state'' ErrStorage),
      snd (LookupID (SECP256K1Address ''k'') ex_tree_getfault)) \<and>
   \<not> xerrors_Is (Wrap ''loading init actor state'' ErrStorage) hamt_ErrNotFound \<and>
   (\<exists>e. GetActor (SECP256K1Address ''k'') ex_tree_getfault =
          (Inl e, snd (LookupID (SECP256K1Address ''k'') ex_tree_getfault)) \<and>
        xerrors_Is e (Wrap ''loading init actor state'' ErrStorage) \<and>
        \<not> xerrors_Is e ErrActorNotFound) \<and>
   LookupID (SECP256K1Address ''k'') ex_tree_init =
     (Inl (Wrap ''resolving id addr'' hamt_ErrNotFound),
      snd (LookupID (SECP256K1Address ''k'') ex_tree_init)) \<and>
   xerrors_Is (Wrap ''resolving id addr'' hamt_ErrNotFound) hamt_ErrNotFound \<and>
   (\<exists>e. GetActor (SECP256K1Address ''k'') ex_tree_init =
          (Inl e, snd (LookupID (SECP256K1Address ''k'') ex_tree_init)) \<and>
        xerrors_Is e ErrActorNotFound \<and> \<not> xerrors_Is e hamt_ErrNotFound) \<and>
   IDAddress 5 \<noteq> Undef \<and>
   LookupID (IDAddress 5) ex_tree0 = (Inr (IDAddress 5), ex_tree0) \<and>
   map_of (actorcache ex_tree0) (IDAddress 5) = None \<and>
   hamt_Find (Store ex_tree0) (root ex_tree0) (IDAddress 5) = Inl hamt_ErrNotFound \<and>
   (\<exists>e. GetActor (IDAddress 5) ex_tree0 = (Inl e, ex_tree0) \<and> e = ErrActorNotFound) \<and>
   LookupID (IDAddress 5) ex_tree_findfault = (Inr (IDAddress 5), ex_tree_findfault) \<and>
   map_of (actorcache ex_tree_findfault) (IDAddress 5) = None \<and>
   hamt_Find (Store ex_tree_findfault) (root ex_tree_findfault) (IDAddress 5) = Inl ErrStorage \<and>
   (\<exists>e. GetActor (IDAddress 5) ex_tree_findfault = (Inl e, ex_tree_findfault) \<and>
        xerrors_Is e ErrStorage \<and> \<not> xerrors_Is e ErrActorNotFound)"
proof -
  let ?k = "SECP256K1Address ''k''"
  let ?err = "Wrap ''loading init actor state'' ErrStorage"
  let ?sta = "snd (LookupID ?k ex_tree_getfault)"
  let ?nf = "Wrap ''resolving id addr'' hamt_ErrNotFound"
  let ?stb = "snd (LookupID ?k ex_tree_init)"
  have n1: "?k \<noteq> Undef" by simp
  have l1: "LookupID ?k ex_tree_getfault = (Inl ?err, ?sta)"
    using LookupID_ex_tree_getfault by (simp add: prod_eq_iff)
  have x1: "\<not> xerrors_Is ?err hamt_ErrNotFound" by simp
  have x2: "\<not> xerrors_Is ?err ErrActorNotFound" by simp
  have l3: "LookupID ?k ex_tree_init = (Inl ?nf, ?stb)"
    using LookupID_ex_tree_init_unregistered by (simp add: prod_eq_iff)
  have x3: "xerrors_Is ?nf hamt_ErrNotFound" by simp
  have n2: "IDAddress 5 \<noteq> Undef" by simp
  have l2: "LookupID (IDAddress 5) ex_tree0 = (Inr (IDAddress 5), ex_tree0)"
    by (simp add: ex_defs eval_defs)
  have c2: "map_of (actorcache ex_tree0) (IDAddress 5) = None" by (simp add: ex_defs)
  have f2: "hamt_Find (Store ex_tree0) (root ex_tree0) (IDAddress 5) = Inl hamt_ErrNotFound"
    by (simp add: ex_defs hamt_Find_def)
  have l4: "LookupID (IDAddress 5) ex_tree_findfault = (Inr (IDAddress 5), ex_tree_findfault)"
    by (simp add: ex_tree_findfault_def ex_defs eval_defs)
  have c4: "map_of (actorcache ex_tree_findfault) (IDAddress 5) = None"
    by (simp add: ex_tree_findfault_def ex_defs)
  have f4: "hamt_Find (Store ex_tree_findfault) (root ex_tree_findfault) (IDAddress 5) = Inl ErrStorage"
    by (simp add: ex_tree_findfault_def ex_defs hamt_Find_def)
  note t1 = GetActor_error_translation [OF n1, of ex_tree_getfault, THEN conjunct1, rule_format, OF l1]
  note t3 = GetActor_error_translation [OF n1, of ex_tree_init, THEN conjunct1, rule_format, OF l3]
  note t2 = GetActor_error_translation [OF n2, of ex_tree0, THEN conjunct2, rule_format,
              OF conjI [OF l2 conjI [OF c2 f2]]]
  note t4 = GetActor_error_translation [OF n2, of ex_tree_findfault, THEN conjunct2, rule_format,
              OF conjI [OF l4 conjI [OF c4 f4]]]
  from t1 x1 x2
  have a: "\<exists>e. GetActor ?k ex_tree_getfault = (Inl e, ?sta) \<and>
        xerrors_Is e ?err \<and> \<not> xerrors_Is e ErrActorNotFound"
    by blast
  from t3 x3
  have c: "\<exists>e. GetActor ?k ex_tree_init = (Inl e, ?stb) \<and>
        xerrors_Is e ErrActorNotFound \<and> \<not> xerrors_Is e hamt_ErrNotFound"
    by blast
  from t2
  have b: "\<exists>e. GetActor (IDAddress 5) ex_tree0 = (Inl e, ex_tree0) \<and> e = ErrActorNotFound"
    by blast
  from t4
  have d: "\<exists>e. GetActor (IDAddress 5) ex_tree_findfault = (Inl e, ex_tree_findfault) \<and>
        xerrors_Is e ErrStorage \<and> \<not> xerrors_Is e ErrActorNotFound"
    by auto
  from n1 l1 x1 a l3 x3 c n2 l2 c2 f2 b l4 c4 f4 d show ?thesis by (intro conjI)
qed

section \<open>SetActor\<close>

lemma SetActor_success:
  assumes "SetActor addr act st = (None, st1)"
  shows "\<exists>iaddr sta. LookupID addr st = (Inr iaddr, sta) \<and>
           map_of (actorcache st1) iaddr = Some act \<and>
           (if map_of (actorcache sta) iaddr = Some act then st1 = sta
            else OpSet iaddr \<notin> faults (Store sta) \<and>
                 st1 = sta\<lparr>actorcache := AList.update iaddr act (actorcache sta),
                           root := AList.update iaddr (heap sta act) (root sta)\<rparr>)"
proof -
  obtain r sta where l: "LookupID addr st = (r, sta)" by (cases "LookupID addr st")
  with assms obtain iaddr where r: "r = Inr iaddr"
    by (cases r) (auto simp: SetActor_def)
  show ?thesis
  proof (cases "map_of (actorcache sta) iaddr = Some act")
    case True
    with assms l r show ?thesis by (simp add: SetActor_def)
  next
    case False
    with assms l r show ?thesis
      by (auto simp: SetActor_def Let_def hamt_Set_def update_conv' split: if_splits)
  qed
qed

lemma SetActor_visible:
  assumes nu: "addr \<noteq> Undef" and s: "SetActor addr act st = (None, st1)"
    and sz: "0 < lru_size (idCache st)"
  shows "GetActor addr st1 = (Inr act, st1)"
proof -
  from SetActor_success [OF s] obtain iaddr sta where
    l: "LookupID addr st = (Inr iaddr, sta)" and c: "map_of (actorcache st1) iaddr = Some act" and
    st1: "if map_of (actorcache sta) iaddr = Some act then st1 = sta
            else OpSet iaddr \<notin> faults (Store sta) \<and>
                 st1 = sta\<lparr>actorcache := AList.update iaddr act (actorcache sta),
                           root := AList.update iaddr (heap sta act) (root sta)\<rparr>" by blast
  from st1 have ic: "idCache st1 = idCache sta" by (auto split: if_splits)
  have "LookupID addr st1 = (Inr iaddr, st1)" using l sz ic by (rule LookupID_again)
  with nu c show ?thesis by (intro GetActor_cached)
qed

lemma SetActor_heap:
  assumes s: "SetActor addr act st = (r, st1)" and p: "p < nextp st"
  shows "heap st1 p = heap st p"
proof -
  obtain r0 sta where l: "LookupID addr st = (r0, sta)" by (cases "LookupID addr st")
  have "reads_only st sta" using l by (rule LookupID_reads_only)
  with p have "heap sta p = heap st p" by (simp add: reads_only_def)
  moreover have "heap st1 = heap sta"
    using s l by (auto simp: SetActor_def Let_def split: sum.splits if_splits prod.splits)
  ultimately show ?thesis by simp
qed





text \<open>
  Claim C7 says that after a successful \<open>SetActor\<close> of an address whose resolution succeeds,
  \<open>GetActor\<close> of that address returns the record. \<open>GetActor\<close> rejects the undefined address
  before it resolves anything and \<open>SetActor\<close> does not: once the undefined address has been
  registered with the init actor, its resolution succeeds, \<open>SetActor\<close> succeeds, and
  \<open>GetActor\<close> fails.
\<close>

theorem SetActor_then_GetActor_undefined_address:
  "fst (RegisterNewAddress Undef 0 (snd (new_Actor ex_actor1 ex_tree_init))) = Inr (IDAddress 100) \<and>
   fst (LookupID Undef ex_tree_undef) = Inr (IDAddress 100) \<and>
   fst (SetActor Undef 2 ex_tree_undef) = None \<and>
   fst (GetActor Undef (snd (SetActor Undef 2 ex_tree_undef))) =
     Inl (Errorf ''GetActor called on undefined address'')"
  by (simp add: ex_tree_undef_def ex_defs2 eval_defs2)

text \<open>
  Claim C7, amended. For every address other than the undefined one and every pointer to
  an allocated record: after a successful \<open>SetActor\<close>, \<open>GetActor\<close> of the same address
  returns that pointer, before any flush, leaves the tree as it is, and the record behind
  the pointer is the one that was set. The size of the ID cache is positive in every tree
  (\<open>NewStateTree\<close> and \<open>LoadStateTree\<close> make it 1024).
\<close>

theorem SetActor_then_GetActor:
  assumes "addr \<noteq> Undef" and "SetActor addr act st = (None, st1)"
    and "0 < lru_size (idCache st)" and "act < nextp st"
  shows "GetActor addr st1 = (Inr act, st1) \<and> heap st1 act = heap st act"
  using SetActor_visible [OF assms(1-3)] SetActor_heap [OF assms(2,4)] by simp

lemma SetActor_ex_tree_key:
  "fst (SetActor (SECP256K1Address ''k'') 2 ex_tree_key) = None \<and>
   0 < lru_size (idCache ex_tree_key) \<and> 2 < nextp ex_tree_key \<and> heap ex_tree_key 2 = ex_actor2"
  by (simp add: ex_tree_key_def ex_defs2 eval_defs2)

theorem SetActor_then_GetActor_witness:
  "SECP256K1Address ''k'' \<noteq> Undef \<and>
   fst (SetActor (SECP256K1Address ''k'') 2 ex_tree_key) = None \<and>
   0 < lru_size (idCache ex_tree_key) \<and> 2 < nextp ex_tree_key \<and>
   GetActor (SECP256K1Address ''k'') (snd (SetActor (SECP256K1Address ''k'') 2 ex_tree_key)) =
     (Inr 2, snd (SetActor (SECP256K1Address ''k'') 2 ex_tree_key)) \<and>
   heap (snd (SetActor (SECP256K1Address ''k'') 2 ex_tree_key)) 2 = ex_actor2"
proof -
  let ?s = "SetActor (SECP256K1Address ''k'') 2 ex_tree_key"
  have h: "?s = (None, snd ?s)" using SetActor_ex_tree_key by (simp add: prod_eq_iff)
  have nu: "SECP256K1Address ''k'' \<noteq> Undef" by simp
  from SetActor_then_GetActor [OF nu h] SetActor_ex_tree_key show ?thesis by simp
qed

section \<open>MutateActor\<close>

text \<open>
  Claim C10. If the function handed to \<open>MutateActor\<close> changes the record and then fails,
  \<open>MutateActor\<close> returns that error, and the change stays: the function worked on the cell
  the actor cache points to, so \<open>GetActor\<close> of the same address returns the same pointer and
  the record behind it is the record as the function left it.
\<close>

theorem MutateActor_failed_mutation_visible:
  assumes "GetActor addr st = (Inr p, st1)"
    and "f (heap st1 p) (Store st1) env = (Some err, a, cst1, env1)"
    and "0 < lru_size (idCache st)"
  shows "\<exists>st2. MutateActor addr f env st = (Some err, env1, st2) \<and>
           GetActor addr st2 = (Inr p, st2) \<and> heap st2 p = a"
proof -
  let ?st2 = "st1\<lparr>heap := (heap st1)(p := a), Store := cst1\<rparr>"
  have m: "MutateActor addr f env st = (Some err, env1, ?st2)"
    using assms(1,2) by (simp add: MutateActor_def)
  have g: "GetActor addr ?st2 = (Inr p, ?st2)"
    using assms(1,3) by (rule GetActor_again) simp_all
  from m g show ?thesis by auto
qed

lemma GetActor_ex_tree1: "GetActor (IDAddress 1) ex_tree1 = (Inr 0, ex_tree1)"
  by (simp add: ex_tree1_def ex_defs eval_defs)

lemma heap_ex_tree1: "heap ex_tree1 0 = ex_actor1"
  by (simp add: ex_tree1_def ex_defs eval_defs)

theorem MutateActor_failed_mutation_visible_witness:
  "GetActor (IDAddress 1) ex_tree1 = (Inr 0, ex_tree1) \<and>
   ex_failing_mutator (heap ex_tree1 0) (Store ex_tree1) () =
     (Some (Errorf ''rejected''), ex_actor1\<lparr>Nonce := 1\<rparr>, Store ex_tree1, ()) \<and>
   0 < lru_size (idCache ex_tree1) \<and>
   (\<exists>st2. MutateActor (IDAddress 1) ex_failing_mutator () ex_tree1 = (Some (Errorf ''rejected''), (), st2) \<and>
          GetActor (IDAddress 1) st2 = (Inr 0, st2) \<and> heap st2 0 = ex_actor1\<lparr>Nonce := 1\<rparr>)"
proof -
  have h1: "GetActor (IDAddress 1) ex_tree1 = (Inr 0, ex_tree1)" by (rule GetActor_ex_tree1)
  have h2: "ex_failing_mutator (heap ex_tree1 0) (Store ex_tree1) () =
     (Some (Errorf ''rejected''), ex_actor1\<lparr>Nonce := 1\<rparr>, Store ex_tree1, ())"
    by (simp add: ex_failing_mutator_def heap_ex_tree1 ex_actor1_def)
  have h3: "0 < lru_size (idCache ex_tree1)"
    using idCache_wf_ex_tree1 by (simp add: idCache_wf_def)
  from MutateActor_failed_mutation_visible [where f = ex_failing_mutator and env = "()", OF h1 h2 h3] h1 h2 h3
  show ?thesis by blast
qed

section \<open>Flush\<close>

lemma block_index_append_new:
  "block_index xs b = None \<Longrightarrow> block_index (xs @ [b]) b = Some (length xs)"
  by (induction xs) (auto split: if_splits)

lemma block_index_nth: "block_index xs b = Some i \<Longrightarrow> i < length xs \<and> xs ! i = b"
  by (induction xs arbitrary: i) (auto split: if_splits)

lemma store_Put_faults: "faults (snd (store_Put cst b)) = faults cst"
  by (simp add: store_Put_def split: option.splits)

lemma store_Put_again:
  assumes "store_Put cst b = (Inr c, cst1)"
  shows "store_Put cst1 b = (Inr c, cst1)"
  using assms
  by (auto simp: store_Put_def block_index_append_new split: if_splits option.splits)

lemma Flush_success:
  assumes "Flush st = (Inr c, st1)"
  shows "\<exists>n cst1. flush_writes (Store st) (heap st) (actorcache st) (root st) = (None, n) \<and>
           hamt_Flush (Store st) n = None \<and> store_Put (Store st) (ActorTrie n) = (Inr c, cst1) \<and>
           st1 = st\<lparr>root := n, actorcache := [], Store := cst1\<rparr>"
  using assms
  by (auto simp: Flush_def Let_def split: prod.splits option.splits sum.splits)

text \<open>
  Claim C8. \<open>Flush\<close> is idempotent: when a flush has succeeded with root reference \<open>c\<close>, a
  second flush right after it, with no mutation in between, succeeds too, returns the same
  reference \<open>c\<close> and leaves the tree as the first flush left it.
\<close>

theorem Flush_idempotent:
  assumes "Flush st = (Inr c, st1)"
  shows "Flush st1 = (Inr c, st1)"
proof -
  from Flush_success [OF assms] obtain n cst1 where
    fl: "hamt_Flush (Store st) n = None" and
    put: "store_Put (Store st) (ActorTrie n) = (Inr c, cst1)" and
    st1: "st1 = st\<lparr>root := n, actorcache := [], Store := cst1\<rparr>" by blast
  have f: "faults cst1 = faults (Store st)"
    using store_Put_faults [of "Store st" "ActorTrie n"] put by simp
  have fl1: "hamt_Flush cst1 n = None" using fl f by (simp add: hamt_Flush_def)
  have put1: "store_Put cst1 (ActorTrie n) = (Inr c, cst1)" using put by (rule store_Put_again)
  show ?thesis by (simp add: Flush_def st1 fl1 put1)
qed

lemma Flush_ex_tree1: "Flush ex_tree1 = (Inr (Cid 0),
    ex_tree1\<lparr>actorcache := [], Store := \<lparr>blocks = [ActorTrie [(IDAddress 1, ex_actor1)]], faults = {}\<rparr>\<rparr>)"
  by (simp add: ex_tree1_def ex_defs eval_defs)

theorem Flush_idempotent_witness:
  "Flush ex_tree1 = (Inr (Cid 0), snd (Flush ex_tree1)) \<and>
   Flush (snd (Flush ex_tree1)) = (Inr (Cid 0), snd (Flush ex_tree1))"
  using Flush_idempotent [of ex_tree1 "Cid 0" "snd (Flush ex_tree1)"] Flush_ex_tree1 by simp

subsection \<open>What a flush leaves behind\<close>

lemma flush_writes_other:
  "flush_writes cst h al n = (r, n1) \<Longrightarrow> k \<notin> fst ` set al \<Longrightarrow> map_of n1 k = map_of n k"
proof (induction al arbitrary: n)
  case Nil
  then show ?case by simp
next
  case (Cons x al)
  obtain a p where x: "x = (a, p)" by (cases x)
  from Cons.prems(2) x have ka: "k \<noteq> a" and kal: "k \<notin> fst ` set al" by auto
  show ?case
  proof (cases "OpSet a \<in> faults cst")
    case True
    with Cons.prems(1) x show ?thesis by (simp add: hamt_Set_def)
  next
    case False
    with Cons.prems(1) x have "flush_writes cst h al (AList.update a (h p) n) = (r, n1)"
      by (simp add: hamt_Set_def)
    from Cons.IH [OF this kal] ka show ?thesis by (simp add: update_conv')
  qed
qed

lemma flush_writes_written:
  "distinct (map fst al) \<Longrightarrow> flush_writes cst h al n = (None, n1) \<Longrightarrow> (k, p) \<in> set al \<Longrightarrow>
   map_of n1 k = Some (h p)"
proof (induction al arbitrary: n)
  case Nil
  then show ?case by simp
next
  case (Cons x al)
  obtain a q where x: "x = (a, q)" by (cases x)
  from Cons.prems(1) x have d: "distinct (map fst al)" and na: "a \<notin> fst ` set al" by auto
  from Cons.prems(2) x have nf: "OpSet a \<notin> faults cst"
    and rest: "flush_writes cst h al (AList.update a (h q) n) = (None, n1)"
    by (auto simp: hamt_Set_def split: if_splits)
  show ?case
  proof (cases "(k, p) = (a, q)")
    case True
    from flush_writes_other [OF rest na] True show ?thesis by (simp add: update_conv')
  next
    case False
    with Cons.prems(3) x have "(k, p) \<in> set al" by auto
    from Cons.IH [OF d rest this] show ?thesis .
  qed
qed

lemma store_Put_stored:
  assumes "store_Put cst b = (Inr c, cst1)"
  shows "\<exists>i. c = Cid i \<and> i < length (blocks cst1) \<and> blocks cst1 ! i = b"
  using assms
  by (auto simp: store_Put_def nth_append dest: block_index_nth split: if_splits option.splits)

lemma store_Put_failed: "store_Put cst b = (Inl e, cst1) \<Longrightarrow> cst1 = cst"
  by (auto simp: store_Put_def split: if_splits option.splits)

text \<open>
  Claim C3 says that a failing \<open>Flush\<close> leaves the tree in its state before the flush and
  that the actor cache is not cleared before the persist step has completed. The source
  clears the cache between the writes into the trie and the persist step: on a tree with
  one cached actor over a store that refuses the put, \<open>Flush\<close> fails and the cache is empty
  afterwards.
\<close>

theorem Flush_clears_cache_before_persist:
  "actorcache ex_tree_putfault = [(IDAddress 1, 0)] \<and>
   fst (Flush ex_tree_putfault) = Inl ErrStorage \<and>
   actorcache (snd (Flush ex_tree_putfault)) = []"
  by (simp add: ex_tree_putfault_def ex_tree1_def ex_defs eval_defs)

lemma flush_writes_append_fail:
  "flush_writes cst h pre n = (None, n1) \<Longrightarrow> hamt_Set cst n1 k (h p) = (Some e, n2) \<Longrightarrow>
   flush_writes cst h (pre @ (k, p) # post) n = (Some e, n2)"
proof (induction pre arbitrary: n)
  case Nil
  then show ?case by simp
next
  case (Cons x pre)
  obtain a q where x: "x = (a, q)" by (cases x)
  obtain r n' where hs: "hamt_Set cst n a (h q) = (r, n')" by (cases "hamt_Set cst n a (h q)")
  from Cons.prems(1) x hs have r: "r = None" and rest: "flush_writes cst h pre n' = (None, n1)"
    by (cases r; simp)+
  from Cons.IH [OF rest Cons.prems(2)] x hs r show ?case by simp
qed

lemma flush_writes_failure_split:
  "flush_writes cst h al n = (Some e, n2) \<Longrightarrow>
   \<exists>pre k p post n1. al = pre @ (k, p) # post \<and> flush_writes cst h pre n = (None, n1) \<and>
     hamt_Set cst n1 k (h p) = (Some e, n2)"
proof (induction al arbitrary: n)
  case Nil
  then show ?case by simp
next
  case (Cons x al)
  obtain a q where x: "x = (a, q)" by (cases x)
  obtain r n' where hs: "hamt_Set cst n a (h q) = (r, n')" by (cases "hamt_Set cst n a (h q)")
  show ?case
  proof (cases r)
    case (Some e')
    with Cons.prems x hs have "e' = e" "n' = n2" by simp_all
    with hs Some x have "x # al = [] @ (a, q) # al \<and> flush_writes cst h [] n = (None, n) \<and>
        hamt_Set cst n a (h q) = (Some e, n2)" by simp
    then show ?thesis by blast
  next
    case None
    with Cons.prems x hs have "flush_writes cst h al n' = (Some e, n2)" by simp
    from Cons.IH [OF this] obtain pre k p post n1 where
      d: "al = pre @ (k, p) # post" "flush_writes cst h pre n' = (None, n1)"
         "hamt_Set cst n1 k (h p) = (Some e, n2)" by blast
    from d x hs None have "x # al = (x # pre) @ (k, p) # post \<and>
        flush_writes cst h (x # pre) n = (None, n1) \<and> hamt_Set cst n1 k (h p) = (Some e, n2)"
      by simp
    then show ?thesis by blast
  qed
qed

text \<open>
  Claim C3, amended. \<open>Flush\<close> writes the cached actors into the trie one after the other.
  At the first write that fails it returns the error of that write at once: the actor cache
  is as it was, the trie is as the earlier writes and the failed one left it, and the
  entries after the failing one are not written. When every write has succeeded, every
  cached actor is in the trie under its key; \<open>Flush\<close> then clears the actor cache and only
  then runs the persist step. If the trie flush fails, or the trie flush succeeds and the
  store put fails, \<open>Flush\<close> returns that error with the actor cache already empty. If both
  succeed, \<open>Flush\<close> returns the reference of the put, which is that of a block of the store
  holding the trie, and the actor cache is empty. Every failure of \<open>Flush\<close> is one of these:
  a failed write with the cache kept, or a failed persist step with the cache cleared.
\<close>

theorem Flush_outcomes:
  assumes "distinct (map fst (actorcache st))" and "Flush st = (r, st1)"
  shows
    "(actorcache st = pre @ (k, p) # post \<and>
      flush_writes (Store st) (heap st) pre (root st) = (None, n1) \<and>
      hamt_Set (Store st) n1 k (heap st p) = (Some e, n2) \<longrightarrow>
        r = Inl e \<and> actorcache st1 = actorcache st \<and> root st1 = n2) \<and>
     (flush_writes (Store st) (heap st) (actorcache st) (root st) = (None, n) \<longrightarrow>
        (\<forall>(k', p') \<in> set (actorcache st). map_of n k' = Some (heap st p')) \<and>
        root st1 = n \<and> actorcache st1 = [] \<and>
        (hamt_Flush (Store st) n = Some e \<longrightarrow> r = Inl e) \<and>
        (hamt_Flush (Store st) n = None \<and> store_Put (Store st) (ActorTrie n) = (Inl e, cst1) \<longrightarrow>
           r = Inl e) \<and>
        (hamt_Flush (Store st) n = None \<and> store_Put (Store st) (ActorTrie n) = (Inr c, cst1) \<longrightarrow>
           r = Inr c \<and> Store st1 = cst1 \<and>
           (\<exists>i. c = Cid i \<and> i < length (blocks cst1) \<and> blocks cst1 ! i = ActorTrie n))) \<and>
     (r = Inl e \<longrightarrow>
        (\<exists>pre k p post n1.
           actorcache st = pre @ (k, p) # post \<and>
           flush_writes (Store st) (heap st) pre (root st) = (None, n1) \<and>
           hamt_Set (Store st) n1 k (heap st p) = (Some e, root st1) \<and>
           actorcache st1 = actorcache st) \<or>
        (\<exists>n. flush_writes (Store st) (heap st) (actorcache st) (root st) = (None, n) \<and>
           root st1 = n \<and> actorcache st1 = []))"
proof (intro conjI impI)
  assume h: "actorcache st = pre @ (k, p) # post \<and>
      flush_writes (Store st) (heap st) pre (root st) = (None, n1) \<and>
      hamt_Set (Store st) n1 k (heap st p) = (Some e, n2)"
  then have "flush_writes (Store st) (heap st) (actorcache st) (root st) = (Some e, n2)"
    using flush_writes_append_fail [of "Store st" "heap st" pre "root st" n1 k p e n2 post] by simp
  with assms(2) have "r = Inl e \<and> st1 = st\<lparr>root := n2\<rparr>" by (auto simp: Flush_def)
  then show "r = Inl e" "actorcache st1 = actorcache st" "root st1 = n2" by simp_all
next
  assume fw: "flush_writes (Store st) (heap st) (actorcache st) (root st) = (None, n)"
  show "\<forall>(k', p') \<in> set (actorcache st). map_of n k' = Some (heap st p')"
    using flush_writes_written [OF assms(1) fw] by auto
  from assms(2) fw show "root st1 = n" "actorcache st1 = []"
    by (auto simp: Flush_def Let_def split: option.splits prod.splits)
  {
    assume "hamt_Flush (Store st) n = Some e"
    with assms(2) fw show "r = Inl e" by (auto simp: Flush_def)
  }
  {
    assume "hamt_Flush (Store st) n = None \<and> store_Put (Store st) (ActorTrie n) = (Inl e, cst1)"
    with assms(2) fw show "r = Inl e" by (auto simp: Flush_def)
  }
  {
    assume h: "hamt_Flush (Store st) n = None \<and> store_Put (Store st) (ActorTrie n) = (Inr c, cst1)"
    with assms(2) fw show "r = Inr c" "Store st1 = cst1" by (auto simp: Flush_def)
    from h show "\<exists>i. c = Cid i \<and> i < length (blocks cst1) \<and> blocks cst1 ! i = ActorTrie n"
      by (blast dest: store_Put_stored)
  }
next
  assume r: "r = Inl e"
  obtain w n where fw: "flush_writes (Store st) (heap st) (actorcache st) (root st) = (w, n)"
    by (cases "flush_writes (Store st) (heap st) (actorcache st) (root st)")
  show "(\<exists>pre k p post n1.
           actorcache st = pre @ (k, p) # post \<and>
           flush_writes (Store st) (heap st) pre (root st) = (None, n1) \<and>
           hamt_Set (Store st) n1 k (heap st p) = (Some e, root st1) \<and>
           actorcache st1 = actorcache st) \<or>
        (\<exists>n. flush_writes (Store st) (heap st) (actorcache st) (root st) = (None, n) \<and>
           root st1 = n \<and> actorcache st1 = [])"
  proof (cases w)
    case (Some e')
    with assms(2) r fw have e: "e' = e" and st1: "st1 = st\<lparr>root := n\<rparr>" by (auto simp: Flush_def)
    from flush_writes_failure_split [OF fw [unfolded Some e]] st1 show ?thesis by auto
  next
    case None
    with assms(2) fw have "root st1 = n \<and> actorcache st1 = []"
      by (auto simp: Flush_def Let_def split: option.splits prod.splits)
    with fw None show ?thesis by blast
  qed
qed

lemma ex_tree_writefault_eval:
  "actorcache ex_tree_writefault = [(IDAddress 1, 0), (IDAddress 2, 1)] \<and>
   root ex_tree_writefault = [(IDAddress 1, ex_actor1), (IDAddress 2, ex_actor2)] \<and>
   heap ex_tree_writefault 0 = ex_actor1 \<and> heap ex_tree_writefault 1 = ex_actor2 \<and>
   Store ex_tree_writefault = \<lparr>blocks = [], faults = {OpSet (IDAddress 2)}\<rparr>"
  by (simp add: ex_tree_writefault_def ex_tree2_def ex_tree1_def ex_defs eval_defs)

lemma ex_tree_putfault_eval:
  "actorcache ex_tree_putfault = [(IDAddress 1, 0)] \<and>
   root ex_tree_putfault = [(IDAddress 1, ex_actor1)] \<and>
   heap ex_tree_putfault 0 = ex_actor1 \<and>
   Store ex_tree_putfault = \<lparr>blocks = [], faults = {OpPut}\<rparr>"
  by (simp add: ex_tree_putfault_def ex_tree1_def ex_defs eval_defs)

lemma ex_tree1_eval:
  "actorcache ex_tree1 = [(IDAddress 1, 0)] \<and> root ex_tree1 = [(IDAddress 1, ex_actor1)] \<and>
   heap ex_tree1 0 = ex_actor1 \<and> Store ex_tree1 = \<lparr>blocks = [], faults = {}\<rparr>"
  by (simp add: ex_tree1_def ex_defs eval_defs)

theorem Flush_outcomes_witness:
  "distinct (map fst (actorcache ex_tree_writefault)) \<and>
   actorcache ex_tree_writefault = [(IDAddress 1, 0)] @ (IDAddress 2, 1) # [] \<and>
   flush_writes (Store ex_tree_writefault) (heap ex_tree_writefault) [(IDAddress 1, 0)]
     (root ex_tree_writefault) = (None, root ex_tree_writefault) \<and>
   hamt_Set (Store ex_tree_writefault) (root ex_tree_writefault) (IDAddress 2)
     (heap ex_tree_writefault 1) = (Some ErrStorage, root ex_tree_writefault) \<and>
   fst (Flush ex_tree_writefault) = Inl ErrStorage \<and>
   actorcache (snd (Flush ex_tree_writefault)) = actorcache ex_tree_writefault \<and>
   root (snd (Flush ex_tree_writefault)) = root ex_tree_writefault \<and>
   distinct (map fst (actorcache ex_tree_putfault)) \<and>
   flush_writes (Store ex_tree_putfault) (heap ex_tree_putfault) (actorcache ex_tree_putfault)
     (root ex_tree_putfault) = (None, root ex_tree_putfault) \<and>
   hamt_Flush (Store ex_tree_putfault) (root ex_tree_putfault) = None \<and>
   store_Put (Store ex_tree_putfault) (ActorTrie (root ex_tree_putfault)) =
     (Inl ErrStorage, Store ex_tree_putfault) \<and>
   fst (Flush ex_tree_putfault) = Inl ErrStorage \<and>
   actorcache (snd (Flush ex_tree_putfault)) = [] \<and>
   distinct (map fst (actorcache ex_tree1)) \<and>
   flush_writes (Store ex_tree1) (heap ex_tree1) (actorcache ex_tree1) (root ex_tree1) =
     (None, root ex_tree1) \<and>
   hamt_Flush (Store ex_tree1) (root ex_tree1) = None \<and>
   store_Put (Store ex_tree1) (ActorTrie (root ex_tree1)) =
     (Inr (Cid 0), \<lparr>blocks = [ActorTrie (root ex_tree1)], faults = {}\<rparr>) \<and>
   fst (Flush ex_tree1) = Inr (Cid 0) \<and>
   actorcache (snd (Flush ex_tree1)) = [] \<and>
   Store (snd (Flush ex_tree1)) = \<lparr>blocks = [ActorTrie (root ex_tree1)], faults = {}\<rparr> \<and>
   map_of (root (snd (Flush ex_tree1))) (IDAddress 1) = Some (heap ex_tree1 0)"
proof -
  let ?w = ex_tree_writefault and ?p = ex_tree_putfault and ?t = ex_tree1
  have dw: "distinct (map fst (actorcache ?w))" by (simp add: ex_tree_writefault_eval)
  have aw: "actorcache ?w = [(IDAddress 1, 0)] @ (IDAddress 2, 1) # []"
    by (simp add: ex_tree_writefault_eval)
  have fw: "flush_writes (Store ?w) (heap ?w) [(IDAddress 1, 0)] (root ?w) = (None, root ?w)"
    by (simp add: ex_tree_writefault_eval hamt_Set_def)
  have sw: "hamt_Set (Store ?w) (root ?w) (IDAddress 2) (heap ?w 1) = (Some ErrStorage, root ?w)"
    by (simp add: ex_tree_writefault_eval hamt_Set_def)
  have dp: "distinct (map fst (actorcache ?p))" by (simp add: ex_tree_putfault_eval)
  have fp: "flush_writes (Store ?p) (heap ?p) (actorcache ?p) (root ?p) = (None, root ?p)"
    by (simp add: ex_tree_putfault_eval hamt_Set_def)
  have hp: "hamt_Flush (Store ?p) (root ?p) = None"
    by (simp add: ex_tree_putfault_eval hamt_Flush_def)
  have pp: "store_Put (Store ?p) (ActorTrie (root ?p)) = (Inl ErrStorage, Store ?p)"
    by (simp add: ex_tree_putfault_eval store_Put_def)
  have dt: "distinct (map fst (actorcache ?t))" by (simp add: ex_tree1_eval)
  have ft: "flush_writes (Store ?t) (heap ?t) (actorcache ?t) (root ?t) = (None, root ?t)"
    by (simp add: ex_tree1_eval hamt_Set_def)
  have ht: "hamt_Flush (Store ?t) (root ?t) = None"
    by (simp add: ex_tree1_eval hamt_Flush_def)
  have pt: "store_Put (Store ?t) (ActorTrie (root ?t)) =
     (Inr (Cid 0), \<lparr>blocks = [ActorTrie (root ?t)], faults = {}\<rparr>)"
    by (simp add: ex_tree1_eval store_Put_def)
  have sj: "Flush x = (fst (Flush x), snd (Flush x))" for x by simp
  note t1 = Flush_outcomes [OF dw sj, THEN conjunct1, rule_format, OF conjI [OF aw conjI [OF fw sw]]]
  note t2 = Flush_outcomes [OF dp sj, THEN conjunct2, THEN conjunct1, rule_format, OF fp]
  note t3 = Flush_outcomes [OF dt sj, THEN conjunct2, THEN conjunct1, rule_format, OF ft]
  from t1 have a: "fst (Flush ?w) = Inl ErrStorage \<and>
      actorcache (snd (Flush ?w)) = actorcache ?w \<and> root (snd (Flush ?w)) = root ?w"
    by simp
  from t2 hp pp have b: "fst (Flush ?p) = Inl ErrStorage \<and> actorcache (snd (Flush ?p)) = []"
    by blast
  from t3 ht pt have c: "fst (Flush ?t) = Inr (Cid 0) \<and> actorcache (snd (Flush ?t)) = [] \<and>
      Store (snd (Flush ?t)) = \<lparr>blocks = [ActorTrie (root ?t)], faults = {}\<rparr>"
    by blast
  from t3 have "root (snd (Flush ?t)) = root ?t"
    "\<forall>(k', p') \<in> set (actorcache ?t). map_of (root ?t) k' = Some (heap ?t p')"
    by blast+
  then have d: "map_of (root (snd (Flush ?t))) (IDAddress 1) = Some (heap ?t 0)"
    by (simp add: ex_tree1_eval)
  from dw aw fw sw a dp fp hp pp b dt ft ht pt c d show ?thesis by (intro conjI) blast+
qed

section \<open>Snapshot and revert\<close>

text \<open>
  Claim C9. \<open>Revert\<close> is atomic on failure: if loading the snapshot root fails, \<open>Revert\<close>
  returns that error and the tree it leaves is the tree it found (trie root, actor cache,
  ID cache and all the rest); an error from \<open>Revert\<close> can only come from that load. A tree
  whose snapshot reference is \<^verbatim>\<open>cid.Undef\<close> is in this case, since the store has no block
  under the undefined reference, and a tree made by \<open>NewStateTree\<close> has that reference
  until a snapshot is taken.
\<close>

theorem Revert_failure_atomic:
  "(hamt_LoadNode (Store st) (snapshot st) = Inl err \<longrightarrow> Revert st = (Some err, st)) \<and>
   (Revert st = (Some err, st1) \<longrightarrow> st1 = st \<and> hamt_LoadNode (Store st) (snapshot st) = Inl err) \<and>
   (snapshot st = cid_Undef \<longrightarrow> fst (Revert st) \<noteq> None \<and> snd (Revert st) = st) \<and>
   (NewStateTree cst = Inr st \<longrightarrow> snapshot st = cid_Undef)"
proof -
  have undef: "\<exists>e. hamt_LoadNode cst' cid_Undef = Inl e" for cst'
    by (simp add: hamt_LoadNode_def store_Get_def)
  have a: "hamt_LoadNode (Store st) (snapshot st) = Inl e \<Longrightarrow> Revert st = (Some e, st)" for e
    by (simp add: Revert_def)
  have b: "Revert st = (Some err, st1) \<Longrightarrow> st1 = st \<and> hamt_LoadNode (Store st) (snapshot st) = Inl err"
    by (auto simp: Revert_def split: sum.splits)
  have c: "snapshot st = cid_Undef \<Longrightarrow> fst (Revert st) \<noteq> None \<and> snd (Revert st) = st"
    using undef [of "Store st"] a by auto
  have d: "NewStateTree cst = Inr st \<Longrightarrow> snapshot st = cid_Undef"
    by (auto simp: NewStateTree_def split: sum.splits)
  from a b c d show ?thesis by blast
qed

theorem Revert_failure_atomic_witness:
  "NewStateTree ex_store0 = Inr ex_tree0 \<and> snapshot ex_tree0 = cid_Undef \<and>
   hamt_LoadNode (Store ex_tree0) (snapshot ex_tree0) = Inl ErrBlockNotFound \<and>
   Revert ex_tree0 = (Some ErrBlockNotFound, ex_tree0)"
proof -
  have h1: "NewStateTree ex_store0 = Inr ex_tree0" by (rule NewStateTree_ex)
  have h2: "hamt_LoadNode (Store ex_tree0) (snapshot ex_tree0) = Inl ErrBlockNotFound"
    by (simp add: ex_defs hamt_LoadNode_def store_Get_def)
  show ?thesis
    using Revert_failure_atomic [of ex_tree0 ErrBlockNotFound ex_tree0 ex_store0] h1 h2 by simp
qed

text \<open>
  What \<open>Revert\<close> does restore: the root reference of a successful flush loads the trie of
  that flush, so a revert right after a snapshot puts the same trie back and purges the ID
  cache.
\<close>

lemma Flush_root_loadable:
  assumes "Flush st = (Inr c, st1)"
    and "OpLoadNode c \<notin> faults (Store st1)" and "OpGet c \<notin> faults (Store st1)"
  shows "hamt_LoadNode (Store st1) c = Inr (root st1)"
proof -
  from Flush_success [OF assms(1)] obtain n cst1 where
    put: "store_Put (Store st) (ActorTrie n) = (Inr c, cst1)" and
    st1: "st1 = st\<lparr>root := n, actorcache := [], Store := cst1\<rparr>" by blast
  from store_Put_stored [OF put] obtain i where
    "c = Cid i" "i < length (blocks cst1)" "blocks cst1 ! i = ActorTrie n" by blast
  with assms(2,3) st1 show ?thesis by (simp add: hamt_LoadNode_def store_Get_def)
qed

lemma Revert_after_Snapshot:
  assumes "Snapshot st = (None, st1)"
    and "OpLoadNode (snapshot st1) \<notin> faults (Store st1)"
    and "OpGet (snapshot st1) \<notin> faults (Store st1)"
  shows "Revert st1 = (None, st1\<lparr>idCache := lru_Purge (idCache st1)\<rparr>)"
proof -
  obtain c sta where f: "Flush st = (Inr c, sta)" and st1: "st1 = sta\<lparr>snapshot := c\<rparr>"
    using assms(1) by (auto simp: Snapshot_def split: sum.splits prod.splits)
  have "hamt_LoadNode (Store sta) c = Inr (root sta)"
    using f assms(2,3) by (intro Flush_root_loadable) (simp_all add: st1)
  then show ?thesis by (simp add: Revert_def st1)
qed

text \<open>
  Claim C1 says that after a snapshot, later mutations and \<open>Revert\<close>, \<open>GetActor\<close> returns the
  records of the snapshot and fails with \<open>ActorNotFound\<close> for addresses registered after
  it. \<open>Revert\<close> reloads the trie and purges the ID cache but keeps the actor cache (the
  source marks this with a to-do), so both parts fail. First run: a record is set at ID
  address 1, a snapshot is taken, another record is set at the same address, the tree is
  reverted; the reloaded trie holds the first record, yet \<open>GetActor\<close> returns the second.
  Second run: a snapshot is taken, a key address is registered and gets ID 100, the tree
  is reverted; the reloaded trie has no actor 100, yet \<open>GetActor\<close> finds the record under
  ID 100 and under the key address.
\<close>

theorem Revert_keeps_cached_writes:
  "(fst (Snapshot ex_tree1) = None \<and> snapshot ex_tree_snap = Cid 0 \<and>
   GetActor_record (IDAddress 1) ex_tree_snap = Inr ex_actor1 \<and>
   fst (SetActor (IDAddress 1) 1 (snd (new_Actor ex_actor2 ex_tree_snap))) = None \<and>
   fst (Revert ex_tree_mut) = None \<and>
   root ex_tree_rev = [(IDAddress 1, ex_actor1)] \<and>
   actorcache ex_tree_rev = [(IDAddress 1, 1)] \<and>
   GetActor_record (IDAddress 1) ex_tree_rev = Inr ex_actor2) \<and>
   (fst (Snapshot (snd (new_Actor ex_actor1 ex_tree_init))) = None \<and>
   snapshot ex_tree_snap2 = Cid 2 \<and>
   GetActor_record (IDAddress 100) ex_tree_snap2 = Inl ErrActorNotFound \<and>
   fst (RegisterNewAddress (SECP256K1Address ''k'') 0 ex_tree_snap2) = Inr (IDAddress 100) \<and>
   fst (Revert ex_tree_reg2) = None \<and>
   root ex_tree_rev2 = [(InitAddress, ex_init_actor)] \<and>
   GetActor_record (IDAddress 100) ex_tree_rev2 = Inr ex_actor1 \<and>
   GetActor_record (SECP256K1Address ''k'') ex_tree_rev2 = Inr ex_actor1)"
  by (simp add: ex_tree_rev_def ex_tree_mut_def ex_tree_snap_def ex_tree1_def
        ex_tree_rev2_def ex_tree_reg2_def ex_tree_snap2_def GetActor_record_def
        ex_defs2 eval_defs2)

section \<open>RegisterNewAddress\<close>

lemma ias_AddActor_success:
  assumes "ias_AddActor ias cst addr = (Inr oaddr, ias1, cst0)"
  shows "oaddr = IDAddress (NextID ias) \<and> NextID ias1 = NextID ias + 1"
proof -
  obtain amap where lt: "hamt_LoadTable cst (AddressMap ias) = Inr amap"
    using assms by (cases "hamt_LoadTable cst (AddressMap ias)") (simp_all add: ias_AddActor_def)
  have nr: "map_of amap addr = None"
    using assms lt by (cases "map_of amap addr") (simp_all add: ias_AddActor_def)
  obtain sr amap1 where hs: "hamt_Set cst amap addr (NextID ias) = (sr, amap1)"
    by (cases "hamt_Set cst amap addr (NextID ias)")
  have sr: "sr = None"
    using assms lt nr hs by (cases sr) (simp_all add: ias_AddActor_def)
  have fl: "hamt_Flush cst amap1 = None"
    using assms lt nr hs sr by (cases "hamt_Flush cst amap1") (simp_all add: ias_AddActor_def)
  obtain pr cst' where pt: "store_Put cst (IdTable amap1) = (pr, cst')"
    by (cases "store_Put cst (IdTable amap1)")
  show ?thesis
    using assms lt nr hs sr fl pt by (cases pr) (auto simp: ias_AddActor_def)
qed

lemma register_closure_success:
  assumes "register_closure addr a0 cst out0 = (None, a, cst1, out)"
  shows "\<exists>ias ias1 cst0. store_Get_InitActorState cst (Head a0) = Inr ias \<and>
           out = IDAddress (NextID ias) \<and> NextID ias1 = NextID ias + 1 \<and>
           store_Put cst0 (InitStateBlock ias1) = (Inr (Head a), cst1)"
proof -
  obtain ias where g: "store_Get_InitActorState cst (Head a0) = Inr ias"
    using assms by (cases "store_Get_InitActorState cst (Head a0)") (simp_all add: register_closure_def)
  obtain ar ias1 cst0 where ad: "ias_AddActor ias cst addr = (ar, ias1, cst0)"
    by (cases "ias_AddActor ias cst addr")
  obtain oaddr where ar: "ar = Inr oaddr"
    using assms g ad by (cases ar) (simp_all add: register_closure_def)
  obtain pr cst2 where pt: "store_Put cst0 (InitStateBlock ias1) = (pr, cst2)"
    by (cases "store_Put cst0 (InitStateBlock ias1)")
  obtain ncid where pr: "pr = Inr ncid"
    using assms g ad ar pt by (cases pr) (simp_all add: register_closure_def)
  from assms g ad ar pt pr have e: "a = a0\<lparr>Head := ncid\<rparr>" "cst1 = cst2" "out = oaddr"
    by (simp_all add: register_closure_def)
  from ias_AddActor_success [OF ad [unfolded ar]] e pt pr g show ?thesis by auto
qed

lemma GetActor_canonical_wf:
  assumes "idCache_wf st" and "Protocol addr = ID" and "map_of (actorcache st) addr = Some p"
  shows "GetActor addr st = (Inr p, st)"
proof -
  from assms(2) have "addr \<noteq> Undef" by auto
  moreover have "LookupID addr st = (Inr addr, st)" using assms(2,1) by (rule LookupID_canonical_wf)
  ultimately show ?thesis using assms(3) by (rule GetActor_cached)
qed

lemma GetActor_canonical_result:
  assumes "idCache_wf st" and "Protocol addr = ID" and "GetActor addr st = (Inr p, sta)"
  shows "map_of (actorcache sta) addr = Some p \<and> idCache sta = idCache st"
proof -
  from assms(2) have nu: "addr \<noteq> Undef" by auto
  have l: "LookupID addr st = (Inr addr, st)" using assms(2,1) by (rule LookupID_canonical_wf)
  from assms(3) nu l show ?thesis
    by (auto simp: GetActor.simps update_conv' split: option.splits sum.splits if_splits)
qed

text \<open>
  Claim C6 says that when the final \<open>SetActor\<close> of \<open>RegisterNewAddress\<close> fails, the init
  actor's updated head remains in the actor cache. \<open>SetActor\<close> puts the supplied record into
  the cache before it writes to the trie, and the allocator mints whatever ID is next: in
  a tree whose init actor state has 0 as next free ID, the minted address is the init
  actor's own, the mutation leaves the init actor with its new head in the cache, the
  final \<open>SetActor\<close> fails in the trie write, and the cache entry of the init actor is by
  then the supplied record.
\<close>

theorem RegisterNewAddress_overwrites_init_actor:
  "idCache_wf ex_tree_zero \<and>
   fst ex_mutated_zero = None \<and>
   fst (snd ex_mutated_zero) = InitAddress \<and>
   GetActor_record InitAddress (snd (snd ex_mutated_zero)) = Inr (ex_init_actor\<lparr>Head := Cid 4\<rparr>) \<and>
   fst (SetActor InitAddress 0 (snd (snd ex_mutated_zero))) = Some ErrStorage \<and>
   fst (RegisterNewAddress (SECP256K1Address ''k'') 0 ex_tree_zero) = Inl ErrStorage \<and>
   GetActor_record InitAddress (snd (RegisterNewAddress (SECP256K1Address ''k'') 0 ex_tree_zero)) =
     Inr ex_actor1"
  by (simp add: ex_mutated_zero_def ex_tree_zero_def idCache_wf_def GetActor_record_def
        ex_defs2 eval_defs2)

text \<open>
  Claim C6, amended. When the mutation of the init actor in \<open>RegisterNewAddress\<close> has succeeded and
  the final \<open>SetActor\<close> of the supplied record under the minted address fails, the call
  returns that error and the allocation stays: in the tree the call leaves, \<open>GetActor\<close> of
  the init actor's address returns the cached pointer, the record behind it is the one the
  allocation left, its head is the reference of the init actor state written by the
  allocation, whose next free ID is one past the minted one, and the store is the one
  holding that state. This holds whenever the minted address is not the init actor's own
  address.
\<close>

theorem RegisterNewAddress_allocation_not_rolled_back:
  assumes wf: "idCache_wf st"
    and m: "MutateActor InitAddress (register_closure addr) Undef st = (None, out, st1)"
    and s: "SetActor out act st1 = (Some err, st2)"
    and fresh: "out \<noteq> InitAddress"
  shows "RegisterNewAddress addr act st = (Inl err, st2) \<and>
         (\<exists>p sta a cst1.
            GetActor InitAddress st = (Inr p, sta) \<and>
            register_closure addr (heap sta p) (Store sta) Undef = (None, a, cst1, out) \<and>
            GetActor InitAddress st2 = (Inr p, st2) \<and> heap st2 p = a \<and> Store st2 = cst1 \<and>
            (\<exists>ias ias1 cst0.
               store_Get_InitActorState (Store sta) (Head (heap sta p)) = Inr ias \<and>
               out = IDAddress (NextID ias) \<and> NextID ias1 = NextID ias + 1 \<and>
               store_Put cst0 (InitStateBlock ias1) = (Inr (Head a), cst1)))"
proof -
  have pi: "Protocol InitAddress = ID" by (simp add: InitAddress_def)
  have reg: "RegisterNewAddress addr act st = (Inl err, st2)"
    using m s by (simp add: RegisterNewAddress_def)
  obtain g sta where ga: "GetActor InitAddress st = (g, sta)" by (cases "GetActor InitAddress st")
  with m obtain p where g: "g = Inr p" by (cases g) (auto simp: MutateActor_def)
  obtain r a cst1 env1 where cl: "register_closure addr (heap sta p) (Store sta) Undef = (r, a, cst1, env1)"
    by (cases "register_closure addr (heap sta p) (Store sta) Undef")
  let ?stb = "sta\<lparr>heap := (heap sta)(p := a), Store := cst1\<rparr>"
  from m ga g cl have r: "r = None" and env1: "env1 = out"
    by (auto simp: MutateActor_def Let_def split: option.splits prod.splits)
  from m ga g cl r have sb: "fst (SetActor InitAddress p ?stb) = None" "snd (SetActor InitAddress p ?stb) = st1"
    by (auto simp: MutateActor_def Let_def split: prod.splits)
  from GetActor_canonical_result [OF wf pi ga [unfolded g]]
  have cp: "map_of (actorcache sta) InitAddress = Some p" and ic: "idCache sta = idCache st" by simp_all
  have wfb: "idCache_wf ?stb" using wf ic by (simp add: idCache_wf_def)
  have lb: "LookupID InitAddress ?stb = (Inr InitAddress, ?stb)"
    using pi wfb by (rule LookupID_canonical_wf)
  have st1: "st1 = ?stb" using sb(2) lb cp by (simp add: SetActor_def)
  from register_closure_success [OF cl [unfolded r env1]] obtain ias ias1 cst0 where
    cs: "store_Get_InitActorState (Store sta) (Head (heap sta p)) = Inr ias"
        "out = IDAddress (NextID ias)" "NextID ias1 = NextID ias + 1"
        "store_Put cst0 (InitStateBlock ias1) = (Inr (Head a), cst1)" by blast
  have po: "Protocol out = ID" using cs(2) by simp
  have wf1: "idCache_wf st1" using wfb st1 by simp
  have lo: "LookupID out st1 = (Inr out, st1)" using po wf1 by (rule LookupID_canonical_wf)
  from s lo have st2: "st2 = st1\<lparr>actorcache := AList.update out act (actorcache st1)\<rparr>"
    by (auto simp: SetActor_def Let_def hamt_Set_def split: if_splits)
  have wf2: "idCache_wf st2" using wf1 st2 by (simp add: idCache_wf_def)
  have c2: "map_of (actorcache st2) InitAddress = Some p"
    using cp fresh by (simp add: st2 st1 update_conv')
  have g2: "GetActor InitAddress st2 = (Inr p, st2)" using wf2 pi c2 by (rule GetActor_canonical_wf)
  have h2: "heap st2 p = a \<and> Store st2 = cst1" by (simp add: st2 st1)
  from reg ga g cl r env1 g2 h2 cs show ?thesis by blast
qed

lemma ex_tree_setfault_wf: "idCache_wf ex_tree_setfault"
  by (simp add: ex_tree_setfault_def idCache_wf_def ex_defs2 eval_defs2)

lemma ex_tree_setfault_mutate:
  "fst (MutateActor InitAddress (register_closure (SECP256K1Address ''k'')) Undef ex_tree_setfault) = None \<and>
   fst (snd (MutateActor InitAddress (register_closure (SECP256K1Address ''k'')) Undef ex_tree_setfault)) = IDAddress 100"
  by (simp add: ex_tree_setfault_def ex_defs2 eval_defs2)

lemma ex_tree_setfault_set:
  "fst (SetActor (IDAddress 100) 0
     (snd (snd (MutateActor InitAddress (register_closure (SECP256K1Address ''k'')) Undef ex_tree_setfault)))) = Some ErrStorage"
  by (simp add: ex_tree_setfault_def ex_defs2 eval_defs2)

theorem RegisterNewAddress_allocation_not_rolled_back_witness:
  "idCache_wf ex_tree_setfault \<and>
   ex_mutated = (None, IDAddress 100, snd (snd ex_mutated)) \<and>
   SetActor (IDAddress 100) 0 (snd (snd ex_mutated)) = (Some ErrStorage, ex_tree_regfail) \<and>
   IDAddress 100 \<noteq> InitAddress \<and>
   RegisterNewAddress (SECP256K1Address ''k'') 0 ex_tree_setfault = (Inl ErrStorage, ex_tree_regfail) \<and>
   (\<exists>p sta a cst1.
      GetActor InitAddress ex_tree_setfault = (Inr p, sta) \<and>
      register_closure (SECP256K1Address ''k'') (heap sta p) (Store sta) Undef =
        (None, a, cst1, IDAddress 100) \<and>
      GetActor InitAddress ex_tree_regfail = (Inr p, ex_tree_regfail) \<and>
      heap ex_tree_regfail p = a \<and> Store ex_tree_regfail = cst1)"
proof -
  have wf: "idCache_wf ex_tree_setfault" by (rule ex_tree_setfault_wf)
  have m: "MutateActor InitAddress (register_closure (SECP256K1Address ''k'')) Undef ex_tree_setfault =
             (None, IDAddress 100, snd (snd ex_mutated))"
    using ex_tree_setfault_mutate by (simp add: ex_mutated_def prod_eq_iff)
  have s: "SetActor (IDAddress 100) 0 (snd (snd ex_mutated)) = (Some ErrStorage, ex_tree_regfail)"
    using ex_tree_setfault_set by (simp add: ex_mutated_def ex_tree_regfail_def prod_eq_iff)
  have fresh: "IDAddress 100 \<noteq> InitAddress" by (simp add: InitAddress_def)
  note t = RegisterNewAddress_allocation_not_rolled_back [OF wf m s fresh]
  from t have c1: "RegisterNewAddress (SECP256K1Address ''k'') 0 ex_tree_setfault = (Inl ErrStorage, ex_tree_regfail)"
    by (rule conjunct1)
  from t have c2: "\<exists>p sta a cst1.
      GetActor InitAddress ex_tree_setfault = (Inr p, sta) \<and>
      register_closure (SECP256K1Address ''k'') (heap sta p) (Store sta) Undef =
        (None, a, cst1, IDAddress 100) \<and>
      GetActor InitAddress ex_tree_regfail = (Inr p, ex_tree_regfail) \<and>
      heap ex_tree_regfail p = a \<and> Store ex_tree_regfail = cst1"
    by blast
  have m': "ex_mutated = (None, IDAddress 100, snd (snd ex_mutated))"
    using m by (simp add: ex_mutated_def)
  from wf m' s fresh c1 c2 show ?thesis by (intro conjI)
qed

lemma ex_tree_regfail_head:
  "GetActor_record InitAddress ex_tree_regfail = Inr (ex_init_actor\<lparr>Head := Cid 4\<rparr>)"
  by (simp add: ex_tree_regfail_def ex_mutated_def ex_tree_setfault_def GetActor_record_def
        ex_defs2 eval_defs2)

section \<open>The invariants hold in every tree the operations build\<close>

lemma NewStateTree_tree_wf: "NewStateTree cst = Inr st \<Longrightarrow> tree_wf st"
  by (auto simp: NewStateTree_def lru_NewLRU_def tree_wf_def idCache_wf_def)

lemma LoadStateTree_tree_wf: "LoadStateTree cst c = Inr st \<Longrightarrow> tree_wf st"
  by (auto simp: LoadStateTree_def lru_NewLRU_def tree_wf_def idCache_wf_def split: sum.splits)

lemma new_Actor_tree_wf:
  "tree_wf st \<Longrightarrow> new_Actor a st = (p, st1) \<Longrightarrow> tree_wf st1 \<and> p < nextp st1"
  by (fastforce simp: new_Actor_def tree_wf_def idCache_wf_def less_Suc_eq)

lemma tree_wf_cache_update:
  assumes "tree_wf st" and "act < nextp st"
  shows "tree_wf (st\<lparr>actorcache := AList.update k act (actorcache st), root := n\<rparr>)"
proof -
  have "p < nextp st" if "p \<in> snd ` set (AList.update k act (actorcache st))" for p
  proof -
    from that set_update_subset [of k act "actorcache st"]
    have "p = act \<or> p \<in> snd ` set (actorcache st)" by force
    with assms show ?thesis unfolding tree_wf_def by auto
  qed
  moreover have "distinct (map fst (AList.update k act (actorcache st)))"
    using assms by (simp add: tree_wf_def distinct_update)
  moreover have "idCache_wf st" using assms by (simp add: tree_wf_def)
  ultimately show ?thesis unfolding tree_wf_def idCache_wf_def by simp
qed

lemma SetActor_tree_wf:
  assumes wf: "tree_wf st" and a: "act < nextp st" and s: "SetActor addr act st = (r, st1)"
  shows "tree_wf st1"
proof -
  obtain r0 sta where l: "LookupID addr st = (r0, sta)" by (cases "LookupID addr st")
  have wfa: "tree_wf sta" using wf l by (rule LookupID_tree_wf)
  have "reads_only st sta" using l by (rule LookupID_reads_only)
  with a have a': "act < nextp sta" by (simp add: reads_only_def)
  have "st1 = sta \<or> (\<exists>k n. st1 = sta\<lparr>actorcache := AList.update k act (actorcache sta), root := n\<rparr>)"
    using s l by (auto simp: SetActor_def Let_def split: sum.splits if_splits prod.splits)
  with wfa a' show ?thesis by (auto intro: tree_wf_cache_update)
qed

lemma Flush_tree_wf:
  assumes "tree_wf st" and "Flush st = (r, st1)"
  shows "tree_wf st1"
proof -
  have "idCache st1 = idCache st \<and> nextp st1 = nextp st \<and>
        (actorcache st1 = actorcache st \<or> actorcache st1 = [])"
    using assms(2) by (auto simp: Flush_def Let_def split: prod.splits option.splits)
  with assms(1) show ?thesis by (fastforce simp: tree_wf_def idCache_wf_def)
qed

lemma Snapshot_tree_wf:
  assumes "tree_wf st" and "Snapshot st = (r, st1)"
  shows "tree_wf st1"
proof -
  obtain fr sta where f: "Flush st = (fr, sta)" by (cases "Flush st")
  have "tree_wf sta" using assms(1) f by (rule Flush_tree_wf)
  moreover have "st1 = sta \<or> (\<exists>c. st1 = sta\<lparr>snapshot := c\<rparr>)"
    using assms(2) f by (auto simp: Snapshot_def split: sum.splits)
  ultimately show ?thesis by (fastforce simp: tree_wf_def idCache_wf_def)
qed

lemma Revert_tree_wf:
  assumes "tree_wf st" and "Revert st = (r, st1)"
  shows "tree_wf st1"
  using assms
  by (fastforce simp: Revert_def lru_Purge_def tree_wf_def idCache_wf_def split: sum.splits)

lemma GetActor_pointer_allocated:
  assumes "tree_wf st" and "GetActor addr st = (Inr p, st1)"
  shows "p < nextp st1"
proof -
  have wf1: "tree_wf st1" using assms by (rule GetActor_tree_wf)
  have "\<exists>k. map_of (actorcache st1) k = Some p"
    using assms(2)
    by (auto simp: GetActor.simps update_conv' split: if_splits prod.splits sum.splits option.splits)
  then obtain k where "(k, p) \<in> set (actorcache st1)" by (blast dest: map_of_SomeD)
  then have "p \<in> snd ` set (actorcache st1)" by force
  with wf1 show ?thesis unfolding tree_wf_def by blast
qed

lemma MutateActor_tree_wf:
  assumes wf: "tree_wf st" and m: "MutateActor addr f env st = (r, env1, st1)"
  shows "tree_wf st1"
proof -
  obtain g sta where ga: "GetActor addr st = (g, sta)" by (cases "GetActor addr st")
  have wfa: "tree_wf sta" using wf ga by (rule GetActor_tree_wf)
  show ?thesis
  proof (cases g)
    case (Inl e)
    with m ga wfa show ?thesis by (simp add: MutateActor_def)
  next
    case (Inr p)
    have pa: "p < nextp sta" using wf ga [unfolded Inr] by (rule GetActor_pointer_allocated)
    obtain fr a cst1 e1 where f: "f (heap sta p) (Store sta) env = (fr, a, cst1, e1)"
      by (cases "f (heap sta p) (Store sta) env")
    let ?stb = "sta\<lparr>heap := (heap sta)(p := a), Store := cst1\<rparr>"
    have wfb: "tree_wf ?stb" using wfa by (simp add: tree_wf_def idCache_wf_def)
    show ?thesis
    proof (cases fr)
      case (Some e)
      with m ga Inr f wfb show ?thesis by (simp add: MutateActor_def)
    next
      case None
      obtain sr stc where s: "SetActor addr p ?stb = (sr, stc)" by (cases "SetActor addr p ?stb")
      have "tree_wf stc" using wfb _ s by (rule SetActor_tree_wf) (simp add: pa)
      with m ga Inr f None s show ?thesis by (simp add: MutateActor_def)
    qed
  qed
qed

lemma MutateActor_nextp:
  assumes "MutateActor addr f env st = (r, env1, st1)"
  shows "nextp st \<le> nextp st1"
proof -
  obtain g sta where ga: "GetActor addr st = (g, sta)" by (cases "GetActor addr st")
  have ro: "reads_only st sta" using ga by (rule GetActor_reads_only)
  show ?thesis
  proof (cases g)
    case (Inl e)
    with assms ga ro show ?thesis by (auto simp: MutateActor_def reads_only_def)
  next
    case (Inr p)
    obtain fr a cst1 e1 where f: "f (heap sta p) (Store sta) env = (fr, a, cst1, e1)"
      by (cases "f (heap sta p) (Store sta) env")
    let ?stb = "sta\<lparr>heap := (heap sta)(p := a), Store := cst1\<rparr>"
    show ?thesis
    proof (cases fr)
      case (Some e)
      with assms ga Inr f ro show ?thesis by (auto simp: MutateActor_def reads_only_def)
    next
      case None
      obtain sr stc where s: "SetActor addr p ?stb = (sr, stc)" by (cases "SetActor addr p ?stb")
      obtain r0 std where l: "LookupID addr ?stb = (r0, std)" by (cases "LookupID addr ?stb")
      have "reads_only ?stb std" using l by (rule LookupID_reads_only)
      moreover have "nextp stc = nextp std"
        using s l by (auto simp: SetActor_def Let_def split: sum.splits if_splits prod.splits)
      ultimately have "nextp sta \<le> nextp stc" by (simp add: reads_only_def)
      with assms ga Inr f None s ro show ?thesis by (auto simp: MutateActor_def reads_only_def)
    qed
  qed
qed

lemma RegisterNewAddress_tree_wf:
  assumes wf: "tree_wf st" and a: "act < nextp st" and r: "RegisterNewAddress addr act st = (res, st1)"
  shows "tree_wf st1"
proof -
  obtain mr out sta where m: "MutateActor InitAddress (register_closure addr) Undef st = (mr, out, sta)"
    by (cases "MutateActor InitAddress (register_closure addr) Undef st")
  have wfa: "tree_wf sta" using wf m by (rule MutateActor_tree_wf)
  have a': "act < nextp sta" using MutateActor_nextp [OF m] a by simp
  show ?thesis
  proof (cases mr)
    case (Some e)
    with r m wfa show ?thesis by (simp add: RegisterNewAddress_def)
  next
    case None
    obtain sr stb where s: "SetActor out act sta = (sr, stb)" by (cases "SetActor out act sta")
    have "tree_wf stb" using wfa a' s by (rule SetActor_tree_wf)
    with r m None s show ?thesis by (cases sr) (simp_all add: RegisterNewAddress_def)
  qed
qed

end
